theory Spec2Isabelle
  imports Complex_Main "HOL-Library.Word"
begin

unbundle bit_operations_syntax

section \<open>JavaScript numbers, bytes and bitwise operators\<close>

text \<open>
  The decoder is JavaScript. A \<open>Buffer\<close> holds bytes; every other number is a
  double, and the integers the code computes with stay far below \<open>2 ^ 53\<close>, so they are
  modelled as \<open>int\<close>. The bitwise operators first convert their operands to 32-bit
  integers (\<open>ToInt32\<close>, \<open>ToUint32\<close>) and take shift counts modulo 32.
\<close>

type_synonym byte = "8 word"

definition ToInt32 :: "int \<Rightarrow> int" where
  "ToInt32 x = signed_take_bit 31 x"

definition ToUint32 :: "int \<Rightarrow> int" where
  "ToUint32 x = take_bit 32 x"

definition js_shl :: "int \<Rightarrow> int \<Rightarrow> int" where
  \<comment> \<open>\<open>x << n\<close>\<close>
  "js_shl x n = ToInt32 (push_bit (nat (n mod 32)) (ToInt32 x))"

definition js_shr :: "int \<Rightarrow> int \<Rightarrow> int" where
  \<comment> \<open>\<open>x >> n\<close>, sign-propagating\<close>
  "js_shr x n = drop_bit (nat (n mod 32)) (ToInt32 x)"

definition js_ushr :: "int \<Rightarrow> int \<Rightarrow> int" where
  \<comment> \<open>\<open>x >>> n\<close>, zero-filling\<close>
  "js_ushr x n = drop_bit (nat (n mod 32)) (ToUint32 x)"

definition js_and :: "int \<Rightarrow> int \<Rightarrow> int" where
  "js_and x y = ToInt32 x AND ToInt32 y"

definition js_or :: "int \<Rightarrow> int \<Rightarrow> int" where
  "js_or x y = ToInt32 x OR ToInt32 y"

definition byteAt :: "byte list \<Rightarrow> nat \<Rightarrow> int" where
  \<comment> \<open>\<open>buffer[i]\<close> as the operand of a bitwise operator: reading past the end gives
      \<open>undefined\<close>, which \<open>ToInt32\<close> turns into 0.\<close>
  "byteAt buffer i = (if i < length buffer then uint (buffer ! i) else 0)"

section \<open>Zig-zag order and dequantization (jpeg.js)\<close>

definition zigzagSequence :: "nat list" where
  "zigzagSequence =
    [0,
     1, 8,
     16, 9, 2,
     3, 10, 17, 24,
     32, 25, 18, 11, 4,
     5, 12, 19, 26, 33, 40,
     48, 41, 34, 27, 20, 13, 6,
     7, 14, 21, 28, 35, 42, 49, 56,
     57, 50, 43, 36, 29, 22, 15,
     23, 30, 37, 44, 51, 58,
     59, 52, 45, 38, 31,
     39, 46, 53, 60,
     61, 54, 47,
     55, 62,
     63]"

datatype js_error = Error string | TypeError string | RangeError string

datatype js_number = Num int | NaN | PlusInfinity | MinusInfinity

text \<open>
  The coefficients and the entries of a quantization table are doubles with integer
  values. The product of two of them is the exact product rounded to the nearest double,
  ties to even: an integer below \<open>2 ^ 53\<close> in absolute value is a double, and a larger
  one keeps its 53 leading bits. A product that rounds to \<open>2 ^ 1024\<close> or beyond is
  infinite.
\<close>

fun bitLength :: "nat \<Rightarrow> nat" where
  "bitLength n = (if n = 0 then 0 else Suc (bitLength (n div 2)))"

declare bitLength.simps [simp del]

definition roundToDouble :: "int \<Rightarrow> int" where
  "roundToDouble x =
     (let m = nat \<bar>x\<bar>;
          e = bitLength m - 53;
          q = m div 2 ^ e;
          r = m mod 2 ^ e;
          up = (2 ^ e < 2 * r \<or> (2 * r = 2 ^ e \<and> odd q))
      in sgn x * int ((if up then q + 1 else q) * 2 ^ e))"

definition js_times :: "int \<Rightarrow> int \<Rightarrow> js_number" where
  \<comment> \<open>\<open>a * b\<close>\<close>
  "js_times a b =
     (let r = roundToDouble (a * b)
      in if 2 ^ 1024 \<le> r then PlusInfinity
         else if r \<le> - (2 ^ 1024) then MinusInfinity
         else Num r)"

text \<open>
  \<open>dequantizeCoefficients\<close> multiplies in place, for every index of \<open>coefficients\<close>.
  An index past the end of \<open>quantTable\<close> reads \<open>undefined\<close> and the product is
  \<open>NaN\<close>.
\<close>

definition dequantizeCoefficients :: "int list \<Rightarrow> int list \<Rightarrow> js_number list" where
  "dequantizeCoefficients coefficients quantTable =
     map (\<lambda>i. if i < length quantTable then js_times (coefficients ! i) (quantTable ! i) else NaN)
       [0..<length coefficients]"

text \<open>
  \<open>inverseZigzagOrder\<close> fills a fresh 64-slot array, one write per index
  \<open>i = 0, \<dots>, 63\<close> at position \<open>zigzagSequence[i]\<close>. A slot never written stays
  empty (\<open>None\<close>).
\<close>

fun zigzagLoop :: "'a list \<Rightarrow> nat list \<Rightarrow> 'a option list \<Rightarrow> 'a option list" where
  "zigzagLoop coefficients [] permutation = permutation"
| "zigzagLoop coefficients (i # is) permutation =
     zigzagLoop coefficients is (permutation[zigzagSequence ! i := Some (coefficients ! i)])"

definition inverseZigzagOrder :: "'a list \<Rightarrow> js_error + 'a option list" where
  "inverseZigzagOrder coefficients =
     (if length coefficients \<noteq> 64 then Inl (Error ''Expected 64 coefficients'')
      else Inr (zigzagLoop coefficients [0..<64] (replicate 64 None)))"

text \<open>
  The zig-zag scan of the standard, written as a traversal of the 8 by 8 block along its
  anti-diagonals \<open>row + col = s\<close>, upwards for even \<open>s\<close> and downwards for odd
  \<open>s\<close>; an entry is the natural (row-major) index \<open>8 * row + col\<close>. This is the
  specification's "standard 64-entry permutation", to compare the table with.
\<close>

definition zigzag_diagonal :: "nat \<Rightarrow> nat list" where
  "zigzag_diagonal s =
     (let rows = [r \<leftarrow> [0..<8]. r \<le> s \<and> s - r < 8]
      in map (\<lambda>r. 8 * r + (s - r)) (if even s then rev rows else rows))"

definition standard_zigzag :: "nat list" where
  "standard_zigzag = concat (map zigzag_diagonal [0..<15])"

section \<open>The probability state table (arithmetic.js)\<close>

record state_row =
  probability :: int
  nextLPS :: nat
  nextMPS :: nat
  swapMPS :: nat

text \<open>
  \<open>stateTable\<close>, the frozen module constant that \<open>Coder.encodeBit\<close> and
  \<open>Decoder.decodeBit\<close> index.
\<close>

definition stateTable :: "state_row list" where
  "stateTable =
    [\<lparr>probability = 0x5A1D, nextLPS = 1, nextMPS = 1, swapMPS = 1\<rparr>,
     \<lparr>probability = 0x2586, nextLPS = 14, nextMPS = 2, swapMPS = 0\<rparr>,
     \<lparr>probability = 0x1114, nextLPS = 16, nextMPS = 3, swapMPS = 0\<rparr>,
     \<lparr>probability = 0x080B, nextLPS = 18, nextMPS = 4, swapMPS = 0\<rparr>,
     \<lparr>probability = 0x03D8, nextLPS = 20, nextMPS = 5, swapMPS = 0\<rparr>,
     \<lparr>probability = 0x01DA, nextLPS = 23, nextMPS = 6, swapMPS = 0\<rparr>,
     \<lparr>probability = 0x00E5, nextLPS = 25, nextMPS = 7, swapMPS = 0\<rparr>,
     \<lparr>probability = 0x006F, nextLPS = 28, nextMPS = 8, swapMPS = 0\<rparr>,
     \<lparr>probability = 0x0036, nextLPS = 30, nextMPS = 9, swapMPS = 0\<rparr>,
     \<lparr>probability = 0x001A, nextLPS = 33, nextMPS = 10, swapMPS = 0\<rparr>,
     \<lparr>probability = 0x000D, nextLPS = 35, nextMPS = 11, swapMPS = 0\<rparr>,
     \<lparr>probability = 0x0006, nextLPS = 9, nextMPS = 12, swapMPS = 0\<rparr>,
     \<lparr>probability = 0x0003, nextLPS = 10, nextMPS = 13, swapMPS = 0\<rparr>,
     \<lparr>probability = 0x0001, nextLPS = 12, nextMPS = 13, swapMPS = 0\<rparr>,
     \<lparr>probability = 0x5A7F, nextLPS = 15, nextMPS = 15, swapMPS = 1\<rparr>,
     \<lparr>probability = 0x3F25, nextLPS = 36, nextMPS = 16, swapMPS = 0\<rparr>,
     \<lparr>probability = 0x2CF2, nextLPS = 38, nextMPS = 17, swapMPS = 0\<rparr>,
     \<lparr>probability = 0x207C, nextLPS = 39, nextMPS = 18, swapMPS = 0\<rparr>,
     \<lparr>probability = 0x17B9, nextLPS = 40, nextMPS = 19, swapMPS = 0\<rparr>,
     \<lparr>probability = 0x1182, nextLPS = 42, nextMPS = 20, swapMPS = 0\<rparr>,
     \<lparr>probability = 0x0CEF, nextLPS = 43, nextMPS = 21, swapMPS = 0\<rparr>,
     \<lparr>probability = 0x09A1, nextLPS = 45, nextMPS = 22, swapMPS = 0\<rparr>,
     \<lparr>probability = 0x072F, nextLPS = 46, nextMPS = 23, swapMPS = 0\<rparr>,
     \<lparr>probability = 0x055C, nextLPS = 48, nextMPS = 24, swapMPS = 0\<rparr>,
     \<lparr>probability = 0x0406, nextLPS = 49, nextMPS = 25, swapMPS = 0\<rparr>,
     \<lparr>probability = 0x0303, nextLPS = 51, nextMPS = 26, swapMPS = 0\<rparr>,
     \<lparr>probability = 0x0240, nextLPS = 52, nextMPS = 27, swapMPS = 0\<rparr>,
     \<lparr>probability = 0x01B1, nextLPS = 54, nextMPS = 28, swapMPS = 0\<rparr>,
     \<lparr>probability = 0x0144, nextLPS = 56, nextMPS = 29, swapMPS = 0\<rparr>,
     \<lparr>probability = 0x00F5, nextLPS = 57, nextMPS = 30, swapMPS = 0\<rparr>,
     \<lparr>probability = 0x00B7, nextLPS = 59, nextMPS = 31, swapMPS = 0\<rparr>,
     \<lparr>probability = 0x008A, nextLPS = 60, nextMPS = 32, swapMPS = 0\<rparr>,
     \<lparr>probability = 0x0068, nextLPS = 62, nextMPS = 33, swapMPS = 0\<rparr>,
     \<lparr>probability = 0x004E, nextLPS = 63, nextMPS = 34, swapMPS = 0\<rparr>,
     \<lparr>probability = 0x003B, nextLPS = 32, nextMPS = 35, swapMPS = 0\<rparr>,
     \<lparr>probability = 0x002C, nextLPS = 33, nextMPS = 9, swapMPS = 0\<rparr>,
     \<lparr>probability = 0x5AE1, nextLPS = 37, nextMPS = 37, swapMPS = 1\<rparr>,
     \<lparr>probability = 0x484C, nextLPS = 64, nextMPS = 38, swapMPS = 0\<rparr>,
     \<lparr>probability = 0x3A0D, nextLPS = 65, nextMPS = 39, swapMPS = 0\<rparr>,
     \<lparr>probability = 0x2EF1, nextLPS = 67, nextMPS = 40, swapMPS = 0\<rparr>,
     \<lparr>probability = 0x261F, nextLPS = 68, nextMPS = 41, swapMPS = 0\<rparr>,
     \<lparr>probability = 0x1F33, nextLPS = 69, nextMPS = 42, swapMPS = 0\<rparr>,
     \<lparr>probability = 0x19A8, nextLPS = 70, nextMPS = 43, swapMPS = 0\<rparr>,
     \<lparr>probability = 0x1518, nextLPS = 72, nextMPS = 44, swapMPS = 0\<rparr>,
     \<lparr>probability = 0x1177, nextLPS = 73, nextMPS = 45, swapMPS = 0\<rparr>,
     \<lparr>probability = 0x0E74, nextLPS = 74, nextMPS = 46, swapMPS = 0\<rparr>,
     \<lparr>probability = 0x0BFB, nextLPS = 75, nextMPS = 47, swapMPS = 0\<rparr>,
     \<lparr>probability = 0x09F8, nextLPS = 77, nextMPS = 48, swapMPS = 0\<rparr>,
     \<lparr>probability = 0x0861, nextLPS = 78, nextMPS = 49, swapMPS = 0\<rparr>,
     \<lparr>probability = 0x0706, nextLPS = 79, nextMPS = 50, swapMPS = 0\<rparr>,
     \<lparr>probability = 0x05CD, nextLPS = 48, nextMPS = 51, swapMPS = 0\<rparr>,
     \<lparr>probability = 0x04DE, nextLPS = 50, nextMPS = 52, swapMPS = 0\<rparr>,
     \<lparr>probability = 0x040F, nextLPS = 50, nextMPS = 53, swapMPS = 0\<rparr>,
     \<lparr>probability = 0x0363, nextLPS = 51, nextMPS = 54, swapMPS = 0\<rparr>,
     \<lparr>probability = 0x02D4, nextLPS = 52, nextMPS = 55, swapMPS = 0\<rparr>,
     \<lparr>probability = 0x025C, nextLPS = 53, nextMPS = 56, swapMPS = 0\<rparr>,
     \<lparr>probability = 0x01F8, nextLPS = 54, nextMPS = 57, swapMPS = 0\<rparr>,
     \<lparr>probability = 0x01A4, nextLPS = 55, nextMPS = 58, swapMPS = 0\<rparr>,
     \<lparr>probability = 0x0160, nextLPS = 56, nextMPS = 59, swapMPS = 0\<rparr>,
     \<lparr>probability = 0x0125, nextLPS = 57, nextMPS = 60, swapMPS = 0\<rparr>,
     \<lparr>probability = 0x00F6, nextLPS = 58, nextMPS = 61, swapMPS = 0\<rparr>,
     \<lparr>probability = 0x00CB, nextLPS = 59, nextMPS = 62, swapMPS = 0\<rparr>,
     \<lparr>probability = 0x00AB, nextLPS = 61, nextMPS = 63, swapMPS = 0\<rparr>,
     \<lparr>probability = 0x008F, nextLPS = 61, nextMPS = 32, swapMPS = 0\<rparr>,
     \<lparr>probability = 0x5B12, nextLPS = 65, nextMPS = 65, swapMPS = 1\<rparr>,
     \<lparr>probability = 0x4D04, nextLPS = 80, nextMPS = 66, swapMPS = 0\<rparr>,
     \<lparr>probability = 0x412C, nextLPS = 81, nextMPS = 67, swapMPS = 0\<rparr>,
     \<lparr>probability = 0x37D8, nextLPS = 82, nextMPS = 68, swapMPS = 0\<rparr>,
     \<lparr>probability = 0x2FE8, nextLPS = 83, nextMPS = 69, swapMPS = 0\<rparr>,
     \<lparr>probability = 0x293C, nextLPS = 84, nextMPS = 70, swapMPS = 0\<rparr>,
     \<lparr>probability = 0x2379, nextLPS = 86, nextMPS = 71, swapMPS = 0\<rparr>,
     \<lparr>probability = 0x1EDF, nextLPS = 87, nextMPS = 72, swapMPS = 0\<rparr>,
     \<lparr>probability = 0x1AA9, nextLPS = 87, nextMPS = 73, swapMPS = 0\<rparr>,
     \<lparr>probability = 0x174E, nextLPS = 72, nextMPS = 74, swapMPS = 0\<rparr>,
     \<lparr>probability = 0x1424, nextLPS = 72, nextMPS = 75, swapMPS = 0\<rparr>,
     \<lparr>probability = 0x119C, nextLPS = 74, nextMPS = 76, swapMPS = 0\<rparr>,
     \<lparr>probability = 0x0F6B, nextLPS = 74, nextMPS = 77, swapMPS = 0\<rparr>,
     \<lparr>probability = 0x0D51, nextLPS = 75, nextMPS = 78, swapMPS = 0\<rparr>,
     \<lparr>probability = 0x0BB6, nextLPS = 77, nextMPS = 79, swapMPS = 0\<rparr>,
     \<lparr>probability = 0x0A40, nextLPS = 77, nextMPS = 48, swapMPS = 0\<rparr>,
     \<lparr>probability = 0x5832, nextLPS = 80, nextMPS = 81, swapMPS = 1\<rparr>,
     \<lparr>probability = 0x4D1C, nextLPS = 88, nextMPS = 82, swapMPS = 0\<rparr>,
     \<lparr>probability = 0x438E, nextLPS = 89, nextMPS = 83, swapMPS = 0\<rparr>,
     \<lparr>probability = 0x3BDD, nextLPS = 90, nextMPS = 84, swapMPS = 0\<rparr>,
     \<lparr>probability = 0x34EE, nextLPS = 91, nextMPS = 85, swapMPS = 0\<rparr>,
     \<lparr>probability = 0x2EAE, nextLPS = 92, nextMPS = 86, swapMPS = 0\<rparr>,
     \<lparr>probability = 0x299A, nextLPS = 93, nextMPS = 87, swapMPS = 0\<rparr>,
     \<lparr>probability = 0x2516, nextLPS = 86, nextMPS = 71, swapMPS = 0\<rparr>,
     \<lparr>probability = 0x5570, nextLPS = 88, nextMPS = 89, swapMPS = 1\<rparr>,
     \<lparr>probability = 0x4CA9, nextLPS = 95, nextMPS = 90, swapMPS = 0\<rparr>,
     \<lparr>probability = 0x44D9, nextLPS = 96, nextMPS = 91, swapMPS = 0\<rparr>,
     \<lparr>probability = 0x3E22, nextLPS = 97, nextMPS = 92, swapMPS = 0\<rparr>,
     \<lparr>probability = 0x3824, nextLPS = 99, nextMPS = 93, swapMPS = 0\<rparr>,
     \<lparr>probability = 0x32B4, nextLPS = 99, nextMPS = 94, swapMPS = 0\<rparr>,
     \<lparr>probability = 0x2E17, nextLPS = 93, nextMPS = 86, swapMPS = 0\<rparr>,
     \<lparr>probability = 0x56A8, nextLPS = 95, nextMPS = 96, swapMPS = 1\<rparr>,
     \<lparr>probability = 0x4F46, nextLPS = 101, nextMPS = 97, swapMPS = 0\<rparr>,
     \<lparr>probability = 0x47E5, nextLPS = 102, nextMPS = 98, swapMPS = 0\<rparr>,
     \<lparr>probability = 0x41CF, nextLPS = 103, nextMPS = 99, swapMPS = 0\<rparr>,
     \<lparr>probability = 0x3C3D, nextLPS = 104, nextMPS = 100, swapMPS = 0\<rparr>,
     \<lparr>probability = 0x375E, nextLPS = 99, nextMPS = 93, swapMPS = 0\<rparr>,
     \<lparr>probability = 0x5231, nextLPS = 105, nextMPS = 102, swapMPS = 0\<rparr>,
     \<lparr>probability = 0x4C0F, nextLPS = 106, nextMPS = 103, swapMPS = 0\<rparr>,
     \<lparr>probability = 0x4639, nextLPS = 107, nextMPS = 104, swapMPS = 0\<rparr>,
     \<lparr>probability = 0x415E, nextLPS = 103, nextMPS = 99, swapMPS = 0\<rparr>,
     \<lparr>probability = 0x5627, nextLPS = 105, nextMPS = 106, swapMPS = 1\<rparr>,
     \<lparr>probability = 0x50E7, nextLPS = 108, nextMPS = 107, swapMPS = 0\<rparr>,
     \<lparr>probability = 0x4B85, nextLPS = 109, nextMPS = 103, swapMPS = 0\<rparr>,
     \<lparr>probability = 0x5597, nextLPS = 110, nextMPS = 109, swapMPS = 0\<rparr>,
     \<lparr>probability = 0x504F, nextLPS = 111, nextMPS = 107, swapMPS = 0\<rparr>,
     \<lparr>probability = 0x5A10, nextLPS = 110, nextMPS = 111, swapMPS = 1\<rparr>,
     \<lparr>probability = 0x5522, nextLPS = 112, nextMPS = 109, swapMPS = 0\<rparr>,
     \<lparr>probability = 0x59EB, nextLPS = 112, nextMPS = 111, swapMPS = 1\<rparr>]"

text \<open>
  \<open>ArithmeticCoder.stateTable\<close>, the static table of the class-based coder
  (\<open>ArithmeticCoder.encodeDecision\<close>, \<open>ArithmeticDecoder.decodeDecision\<close>).
\<close>

definition ArithmeticCoder_stateTable :: "state_row list" where
  "ArithmeticCoder_stateTable =
    [\<lparr>probability = 0x5A1D, nextLPS = 1, nextMPS = 1, swapMPS = 1\<rparr>,
     \<lparr>probability = 0x2586, nextLPS = 14, nextMPS = 2, swapMPS = 0\<rparr>,
     \<lparr>probability = 0x1114, nextLPS = 16, nextMPS = 3, swapMPS = 0\<rparr>,
     \<lparr>probability = 0x080B, nextLPS = 18, nextMPS = 4, swapMPS = 0\<rparr>,
     \<lparr>probability = 0x03D8, nextLPS = 20, nextMPS = 5, swapMPS = 0\<rparr>,
     \<lparr>probability = 0x01DA, nextLPS = 23, nextMPS = 6, swapMPS = 0\<rparr>,
     \<lparr>probability = 0x00E5, nextLPS = 25, nextMPS = 7, swapMPS = 0\<rparr>,
     \<lparr>probability = 0x006F, nextLPS = 28, nextMPS = 8, swapMPS = 0\<rparr>,
     \<lparr>probability = 0x0036, nextLPS = 30, nextMPS = 9, swapMPS = 0\<rparr>,
     \<lparr>probability = 0x001A, nextLPS = 33, nextMPS = 10, swapMPS = 0\<rparr>,
     \<lparr>probability = 0x000D, nextLPS = 35, nextMPS = 11, swapMPS = 0\<rparr>,
     \<lparr>probability = 0x0006, nextLPS = 9, nextMPS = 12, swapMPS = 0\<rparr>,
     \<lparr>probability = 0x0003, nextLPS = 10, nextMPS = 13, swapMPS = 0\<rparr>,
     \<lparr>probability = 0x0001, nextLPS = 12, nextMPS = 13, swapMPS = 0\<rparr>,
     \<lparr>probability = 0x5A7F, nextLPS = 15, nextMPS = 15, swapMPS = 1\<rparr>,
     \<lparr>probability = 0x3F25, nextLPS = 36, nextMPS = 16, swapMPS = 0\<rparr>,
     \<lparr>probability = 0x2CF2, nextLPS = 38, nextMPS = 17, swapMPS = 0\<rparr>,
     \<lparr>probability = 0x207C, nextLPS = 39, nextMPS = 18, swapMPS = 0\<rparr>,
     \<lparr>probability = 0x17B9, nextLPS = 40, nextMPS = 19, swapMPS = 0\<rparr>,
     \<lparr>probability = 0x1182, nextLPS = 42, nextMPS = 20, swapMPS = 0\<rparr>,
     \<lparr>probability = 0x0CEF, nextLPS = 43, nextMPS = 21, swapMPS = 0\<rparr>,
     \<lparr>probability = 0x09A1, nextLPS = 45, nextMPS = 22, swapMPS = 0\<rparr>,
     \<lparr>probability = 0x072F, nextLPS = 46, nextMPS = 23, swapMPS = 0\<rparr>,
     \<lparr>probability = 0x055C, nextLPS = 48, nextMPS = 24, swapMPS = 0\<rparr>,
     \<lparr>probability = 0x0406, nextLPS = 49, nextMPS = 25, swapMPS = 0\<rparr>,
     \<lparr>probability = 0x0303, nextLPS = 51, nextMPS = 26, swapMPS = 0\<rparr>,
     \<lparr>probability = 0x0240, nextLPS = 52, nextMPS = 27, swapMPS = 0\<rparr>,
     \<lparr>probability = 0x01B1, nextLPS = 54, nextMPS = 28, swapMPS = 0\<rparr>,
     \<lparr>probability = 0x0144, nextLPS = 56, nextMPS = 29, swapMPS = 0\<rparr>,
     \<lparr>probability = 0x00F5, nextLPS = 57, nextMPS = 30, swapMPS = 0\<rparr>,
     \<lparr>probability = 0x00B7, nextLPS = 59, nextMPS = 31, swapMPS = 0\<rparr>,
     \<lparr>probability = 0x008A, nextLPS = 60, nextMPS = 32, swapMPS = 0\<rparr>,
     \<lparr>probability = 0x0068, nextLPS = 62, nextMPS = 33, swapMPS = 0\<rparr>,
     \<lparr>probability = 0x004E, nextLPS = 63, nextMPS = 34, swapMPS = 0\<rparr>,
     \<lparr>probability = 0x003B, nextLPS = 32, nextMPS = 35, swapMPS = 0\<rparr>,
     \<lparr>probability = 0x002C, nextLPS = 33, nextMPS = 9, swapMPS = 0\<rparr>,
     \<lparr>probability = 0x5AE1, nextLPS = 37, nextMPS = 37, swapMPS = 1\<rparr>,
     \<lparr>probability = 0x484C, nextLPS = 64, nextMPS = 38, swapMPS = 0\<rparr>,
     \<lparr>probability = 0x3A0D, nextLPS = 65, nextMPS = 39, swapMPS = 0\<rparr>,
     \<lparr>probability = 0x2EF1, nextLPS = 67, nextMPS = 40, swapMPS = 0\<rparr>,
     \<lparr>probability = 0x261F, nextLPS = 68, nextMPS = 41, swapMPS = 0\<rparr>,
     \<lparr>probability = 0x1F33, nextLPS = 69, nextMPS = 42, swapMPS = 0\<rparr>,
     \<lparr>probability = 0x19A8, nextLPS = 70, nextMPS = 43, swapMPS = 0\<rparr>,
     \<lparr>probability = 0x1518, nextLPS = 72, nextMPS = 44, swapMPS = 0\<rparr>,
     \<lparr>probability = 0x1177, nextLPS = 73, nextMPS = 45, swapMPS = 0\<rparr>,
     \<lparr>probability = 0x0E78, nextLPS = 74, nextMPS = 46, swapMPS = 0\<rparr>,
     \<lparr>probability = 0x0BFB, nextLPS = 75, nextMPS = 47, swapMPS = 0\<rparr>,
     \<lparr>probability = 0x09F8, nextLPS = 77, nextMPS = 48, swapMPS = 0\<rparr>,
     \<lparr>probability = 0x0861, nextLPS = 78, nextMPS = 49, swapMPS = 0\<rparr>,
     \<lparr>probability = 0x0706, nextLPS = 79, nextMPS = 50, swapMPS = 0\<rparr>,
     \<lparr>probability = 0x05CD, nextLPS = 48, nextMPS = 51, swapMPS = 0\<rparr>,
     \<lparr>probability = 0x04DE, nextLPS = 50, nextMPS = 52, swapMPS = 0\<rparr>,
     \<lparr>probability = 0x040F, nextLPS = 50, nextMPS = 53, swapMPS = 0\<rparr>,
     \<lparr>probability = 0x0363, nextLPS = 51, nextMPS = 54, swapMPS = 0\<rparr>,
     \<lparr>probability = 0x02D4, nextLPS = 52, nextMPS = 55, swapMPS = 0\<rparr>,
     \<lparr>probability = 0x025C, nextLPS = 53, nextMPS = 56, swapMPS = 0\<rparr>,
     \<lparr>probability = 0x01F8, nextLPS = 54, nextMPS = 57, swapMPS = 0\<rparr>,
     \<lparr>probability = 0x01A4, nextLPS = 55, nextMPS = 58, swapMPS = 0\<rparr>,
     \<lparr>probability = 0x0160, nextLPS = 56, nextMPS = 59, swapMPS = 0\<rparr>,
     \<lparr>probability = 0x0125, nextLPS = 57, nextMPS = 60, swapMPS = 0\<rparr>,
     \<lparr>probability = 0x00F6, nextLPS = 58, nextMPS = 61, swapMPS = 0\<rparr>,
     \<lparr>probability = 0x00CB, nextLPS = 59, nextMPS = 62, swapMPS = 0\<rparr>,
     \<lparr>probability = 0x00AB, nextLPS = 61, nextMPS = 63, swapMPS = 0\<rparr>,
     \<lparr>probability = 0x008F, nextLPS = 61, nextMPS = 32, swapMPS = 0\<rparr>,
     \<lparr>probability = 0x5B12, nextLPS = 65, nextMPS = 65, swapMPS = 1\<rparr>,
     \<lparr>probability = 0x4D04, nextLPS = 80, nextMPS = 66, swapMPS = 0\<rparr>,
     \<lparr>probability = 0x412C, nextLPS = 81, nextMPS = 67, swapMPS = 0\<rparr>,
     \<lparr>probability = 0x37D8, nextLPS = 82, nextMPS = 68, swapMPS = 0\<rparr>,
     \<lparr>probability = 0x2FE8, nextLPS = 83, nextMPS = 69, swapMPS = 0\<rparr>,
     \<lparr>probability = 0x293C, nextLPS = 84, nextMPS = 70, swapMPS = 0\<rparr>,
     \<lparr>probability = 0x2379, nextLPS = 86, nextMPS = 71, swapMPS = 0\<rparr>,
     \<lparr>probability = 0x1EDF, nextLPS = 87, nextMPS = 72, swapMPS = 0\<rparr>,
     \<lparr>probability = 0x1AA9, nextLPS = 87, nextMPS = 73, swapMPS = 0\<rparr>,
     \<lparr>probability = 0x174E, nextLPS = 72, nextMPS = 74, swapMPS = 0\<rparr>,
     \<lparr>probability = 0x1424, nextLPS = 72, nextMPS = 75, swapMPS = 0\<rparr>,
     \<lparr>probability = 0x119C, nextLPS = 74, nextMPS = 76, swapMPS = 0\<rparr>,
     \<lparr>probability = 0x0F6B, nextLPS = 74, nextMPS = 77, swapMPS = 0\<rparr>,
     \<lparr>probability = 0x0D51, nextLPS = 75, nextMPS = 78, swapMPS = 0\<rparr>,
     \<lparr>probability = 0x0BB6, nextLPS = 77, nextMPS = 79, swapMPS = 0\<rparr>,
     \<lparr>probability = 0x0A40, nextLPS = 77, nextMPS = 48, swapMPS = 0\<rparr>,
     \<lparr>probability = 0x5832, nextLPS = 80, nextMPS = 81, swapMPS = 1\<rparr>,
     \<lparr>probability = 0x4D1C, nextLPS = 88, nextMPS = 82, swapMPS = 0\<rparr>,
     \<lparr>probability = 0x438E, nextLPS = 89, nextMPS = 83, swapMPS = 0\<rparr>,
     \<lparr>probability = 0x3BDD, nextLPS = 90, nextMPS = 84, swapMPS = 0\<rparr>,
     \<lparr>probability = 0x34EE, nextLPS = 91, nextMPS = 85, swapMPS = 0\<rparr>,
     \<lparr>probability = 0x2EAE, nextLPS = 92, nextMPS = 86, swapMPS = 0\<rparr>,
     \<lparr>probability = 0x299A, nextLPS = 93, nextMPS = 87, swapMPS = 0\<rparr>,
     \<lparr>probability = 0x2516, nextLPS = 86, nextMPS = 71, swapMPS = 0\<rparr>,
     \<lparr>probability = 0x5570, nextLPS = 88, nextMPS = 89, swapMPS = 1\<rparr>,
     \<lparr>probability = 0x4CA9, nextLPS = 95, nextMPS = 90, swapMPS = 0\<rparr>,
     \<lparr>probability = 0x44D9, nextLPS = 96, nextMPS = 91, swapMPS = 0\<rparr>,
     \<lparr>probability = 0x3E22, nextLPS = 97, nextMPS = 92, swapMPS = 0\<rparr>,
     \<lparr>probability = 0x3824, nextLPS = 99, nextMPS = 93, swapMPS = 0\<rparr>,
     \<lparr>probability = 0x32B4, nextLPS = 99, nextMPS = 94, swapMPS = 0\<rparr>,
     \<lparr>probability = 0x2E17, nextLPS = 93, nextMPS = 86, swapMPS = 0\<rparr>,
     \<lparr>probability = 0x56A8, nextLPS = 95, nextMPS = 96, swapMPS = 1\<rparr>,
     \<lparr>probability = 0x4F46, nextLPS = 101, nextMPS = 97, swapMPS = 0\<rparr>,
     \<lparr>probability = 0x47E5, nextLPS = 102, nextMPS = 98, swapMPS = 0\<rparr>,
     \<lparr>probability = 0x41CF, nextLPS = 103, nextMPS = 99, swapMPS = 0\<rparr>,
     \<lparr>probability = 0x3C3D, nextLPS = 104, nextMPS = 100, swapMPS = 0\<rparr>,
     \<lparr>probability = 0x375E, nextLPS = 99, nextMPS = 93, swapMPS = 0\<rparr>,
     \<lparr>probability = 0x5231, nextLPS = 105, nextMPS = 102, swapMPS = 0\<rparr>,
     \<lparr>probability = 0x4C0F, nextLPS = 106, nextMPS = 103, swapMPS = 0\<rparr>,
     \<lparr>probability = 0x4639, nextLPS = 107, nextMPS = 104, swapMPS = 0\<rparr>,
     \<lparr>probability = 0x415E, nextLPS = 103, nextMPS = 99, swapMPS = 0\<rparr>,
     \<lparr>probability = 0x5627, nextLPS = 105, nextMPS = 106, swapMPS = 1\<rparr>,
     \<lparr>probability = 0x50E7, nextLPS = 108, nextMPS = 107, swapMPS = 0\<rparr>,
     \<lparr>probability = 0x4B85, nextLPS = 109, nextMPS = 103, swapMPS = 0\<rparr>,
     \<lparr>probability = 0x5597, nextLPS = 110, nextMPS = 109, swapMPS = 0\<rparr>,
     \<lparr>probability = 0x504F, nextLPS = 111, nextMPS = 107, swapMPS = 0\<rparr>,
     \<lparr>probability = 0x5A10, nextLPS = 110, nextMPS = 111, swapMPS = 1\<rparr>,
     \<lparr>probability = 0x5522, nextLPS = 112, nextMPS = 109, swapMPS = 0\<rparr>,
     \<lparr>probability = 0x59EB, nextLPS = 112, nextMPS = 111, swapMPS = 1\<rparr>]"

text \<open>
  ITU-T T.81, Table D.3 (the probability estimation state machine of the QM coder),
  transcribed from the standard column by column: the estimate \<open>Qe\<close>, the next index
  after a less probable symbol, the next index after a more probable symbol, and the
  indices whose \<open>Switch_MPS\<close> is 1. This is what the specification's "exactly as in
  T.81 Table D.3" refers to; the source's tables are compared with it.
\<close>

definition T81_Qe_Value :: "int list" where
  "T81_Qe_Value =
    [0x5A1D, 0x2586, 0x1114, 0x080B, 0x03D8, 0x01DA, 0x00E5, 0x006F] @
     [0x0036, 0x001A, 0x000D, 0x0006, 0x0003, 0x0001, 0x5A7F, 0x3F25] @
     [0x2CF2, 0x207C, 0x17B9, 0x1182, 0x0CEF, 0x09A1, 0x072F, 0x055C] @
     [0x0406, 0x0303, 0x0240, 0x01B1, 0x0144, 0x00F5, 0x00B7, 0x008A] @
     [0x0068, 0x004E, 0x003B, 0x002C, 0x5AE1, 0x484C, 0x3A0D, 0x2EF1] @
     [0x261F, 0x1F33, 0x19A8, 0x1518, 0x1177, 0x0E74, 0x0BFB, 0x09F8] @
     [0x0861, 0x0706, 0x05CD, 0x04DE, 0x040F, 0x0363, 0x02D4, 0x025C] @
     [0x01F8, 0x01A4, 0x0160, 0x0125, 0x00F6, 0x00CB, 0x00AB, 0x008F] @
     [0x5B12, 0x4D04, 0x412C, 0x37D8, 0x2FE8, 0x293C, 0x2379, 0x1EDF] @
     [0x1AA9, 0x174E, 0x1424, 0x119C, 0x0F6B, 0x0D51, 0x0BB6, 0x0A40] @
     [0x5832, 0x4D1C, 0x438E, 0x3BDD, 0x34EE, 0x2EAE, 0x299A, 0x2516] @
     [0x5570, 0x4CA9, 0x44D9, 0x3E22, 0x3824, 0x32B4, 0x2E17, 0x56A8] @
     [0x4F46, 0x47E5, 0x41CF, 0x3C3D, 0x375E, 0x5231, 0x4C0F, 0x4639] @
     [0x415E, 0x5627, 0x50E7, 0x4B85, 0x5597, 0x504F, 0x5A10, 0x5522] @
     [0x59EB]"

definition T81_Next_Index_LPS :: "nat list" where
  "T81_Next_Index_LPS =
    [1, 14, 16, 18, 20, 23, 25, 28] @
     [30, 33, 35, 9, 10, 12, 15, 36] @
     [38, 39, 40, 42, 43, 45, 46, 48] @
     [49, 51, 52, 54, 56, 57, 59, 60] @
     [62, 63, 32, 33, 37, 64, 65, 67] @
     [68, 69, 70, 72, 73, 74, 75, 77] @
     [78, 79, 48, 50, 50, 51, 52, 53] @
     [54, 55, 56, 57, 58, 59, 61, 61] @
     [65, 80, 81, 82, 83, 84, 86, 87] @
     [87, 72, 72, 74, 74, 75, 77, 77] @
     [80, 88, 89, 90, 91, 92, 93, 86] @
     [88, 95, 96, 97, 99, 99, 93, 95] @
     [101, 102, 103, 104, 99, 105, 106, 107] @
     [103, 105, 108, 109, 110, 111, 110, 112] @
     [112]"

definition T81_Next_Index_MPS :: "nat list" where
  "T81_Next_Index_MPS =
    [1, 2, 3, 4, 5, 6, 7, 8] @
     [9, 10, 11, 12, 13, 13, 15, 16] @
     [17, 18, 19, 20, 21, 22, 23, 24] @
     [25, 26, 27, 28, 29, 30, 31, 32] @
     [33, 34, 35, 9, 37, 38, 39, 40] @
     [41, 42, 43, 44, 45, 46, 47, 48] @
     [49, 50, 51, 52, 53, 54, 55, 56] @
     [57, 58, 59, 60, 61, 62, 63, 32] @
     [65, 66, 67, 68, 69, 70, 71, 72] @
     [73, 74, 75, 76, 77, 78, 79, 48] @
     [81, 82, 83, 84, 85, 86, 87, 71] @
     [89, 90, 91, 92, 93, 94, 86, 96] @
     [97, 98, 99, 100, 93, 102, 103, 104] @
     [99, 106, 107, 103, 109, 107, 111, 109] @
     [111]"

definition T81_Switch_MPS :: "nat list" where
  "T81_Switch_MPS = [0, 14, 36, 64, 80, 88, 95, 105, 110, 112]"

definition T81_Table_D3 :: "state_row list" where
  "T81_Table_D3 =
     map (\<lambda>i. \<lparr>probability = T81_Qe_Value ! i, nextLPS = T81_Next_Index_LPS ! i,
                 nextMPS = T81_Next_Index_MPS ! i,
                 swapMPS = (if i \<in> set T81_Switch_MPS then 1 else 0)\<rparr>)
       [0..<113]"

section \<open>Statistics areas (arithmetic.js)\<close>

text \<open>
  \<open>class Statistics\<close>: two parallel arrays indexed by context index. The constructor
  creates both with \<open>nContexts\<close> entries and \<open>reset\<close> refills them in place, so
  both keep that length.
\<close>

record Statistics =
  moreProbableSymbol :: "bool list"
  states :: "nat list"

definition new_Statistics :: "nat \<Rightarrow> Statistics" where
  "new_Statistics nContexts =
     \<lparr>moreProbableSymbol = replicate nContexts False, states = replicate nContexts 0\<rparr>"

definition reset :: "Statistics \<Rightarrow> Statistics" where
  "reset stats =
     \<lparr>moreProbableSymbol = replicate (length (moreProbableSymbol stats)) False,
      states = replicate (length (states stats)) 0\<rparr>"

text \<open>
  \<open>stats.states[context]\<close> and \<open>stats.moreProbableSymbol[context]\<close>. A context
  index that is negative or past the end reads \<open>undefined\<close>: \<open>None\<close> for the
  state, and a falsy value for the symbol.
\<close>

definition stateAt :: "Statistics \<Rightarrow> int \<Rightarrow> nat option" where
  "stateAt stats context =
     (if 0 \<le> context \<and> nat context < length (states stats)
      then Some (states stats ! nat context) else None)"

definition mpsAt :: "Statistics \<Rightarrow> int \<Rightarrow> bool" where
  "mpsAt stats context =
     (0 \<le> context \<and> nat context < length (moreProbableSymbol stats) \<and>
      moreProbableSymbol stats ! nat context)"

text \<open>
  The update both \<open>encodeBit\<close> and \<open>decodeBit\<close> end with: a truthy \<open>nextState\<close>
  (\<open>null\<close>, \<open>undefined\<close> and 0 are falsy) is stored, and a truthy \<open>swapMPS\<close>
  stores the negated symbol.
\<close>

definition updateStatistics :: "Statistics \<Rightarrow> int \<Rightarrow> bool \<Rightarrow> nat option \<Rightarrow> bool \<Rightarrow> Statistics" where
  "updateStatistics stats context mps nextState swap =
     (let stats1 = (case nextState of
                      None \<Rightarrow> stats
                    | Some n \<Rightarrow> if n \<noteq> 0
                               then stats\<lparr>states := (states stats)[nat context := n]\<rparr>
                               else stats)
      in if swap
         then stats1\<lparr>moreProbableSymbol := (moreProbableSymbol stats1)[nat context := \<not> mps]\<rparr>
         else stats1)"

section \<open>The arithmetic coder (arithmetic.js, class Coder)\<close>

record Interval =
  intervalBase :: int
  intervalSize :: int
  neededBits :: int

record Coder = Interval +
  output_bytes :: "int list"

definition new_Coder :: "Coder" where
  "new_Coder = \<lparr>intervalBase = 0, intervalSize = 0x10000, neededBits = 11, output_bytes = []\<rparr>"

definition elemAt :: "'a list \<Rightarrow> int \<Rightarrow> 'a option" where
  \<comment> \<open>\<open>array[i]\<close>: \<open>undefined\<close> (\<open>None\<close>) outside the array\<close>
  "elemAt xs i = (if 0 \<le> i \<and> nat i < length xs then Some (xs ! nat i) else None)"

text \<open>
  The carry loop of \<open>emitOutputByte\<close>: while the byte at \<open>precedingIndex\<close> is 0 and
  the one before it is 0xFF, \<open>output.splice(precedingIndex-1, 1)\<close> removes the 0xFF and
  the index goes down by 2.
\<close>

function carryLoop :: "int list \<Rightarrow> int \<Rightarrow> int list \<times> int" where
  "carryLoop out precedingIndex =
     (if elemAt out precedingIndex = Some 0 \<and> elemAt out (precedingIndex - 1) = Some 0xFF
      then carryLoop (take (nat (precedingIndex - 1)) out @ drop (nat precedingIndex) out)
             (precedingIndex - 2)
      else (out, precedingIndex))"
  by pat_completeness auto
termination
  by (relation "measure (\<lambda>(out, p). nat p)") (auto simp: elemAt_def split: if_splits)

definition emitOutputByte :: "Coder \<Rightarrow> Coder" where
  "emitOutputByte c =
     (let outputByte = js_ushr (intervalBase c) 19;
          (out1, outputByte1) =
            (if outputByte > 0xFF
             then (let (out, precedingIndex) = carryLoop (output_bytes c) (int (length (output_bytes c)) - 1);
                       out' = (if precedingIndex \<ge> 0
                               then out[nat precedingIndex := out ! nat precedingIndex + 1]
                               else out)
                   in (out', js_and outputByte 0xFF))
             else (output_bytes c, outputByte));
          out2 = (if outputByte1 = 0xFF then out1 @ [0xFF, 0] else out1 @ [outputByte1])
      in c\<lparr>intervalBase := js_and (intervalBase c) 0x7FFFF, output_bytes := out2\<rparr>)"

text \<open>
  \<open>Coder.renormalize\<close>: a \<open>while\<close> loop that doubles the interval size until it
  reaches 0x8000. It does not end when the size is 0, so the model is a partial function
  (\<open>None\<close>: the loop runs forever).
\<close>

partial_function (option) Coder_renormalize :: "Coder \<Rightarrow> Coder option" where
  "Coder_renormalize c =
     (if intervalSize c < 0x8000
      then (let c1 = c\<lparr>intervalSize := js_shl (intervalSize c) 1,
                        intervalBase := js_shl (intervalBase c) 1,
                        neededBits := neededBits c - 1\<rparr>;
                c2 = (if neededBits c1 = 0 then (emitOutputByte c1)\<lparr>neededBits := 8\<rparr> else c1)
            in Coder_renormalize c2)
      else Some c)"

text \<open>\<open>encodeMPS\<close> returns \<open>true\<close> when the state must change, \<open>undefined\<close> otherwise.\<close>

definition encodeMPS :: "Coder \<Rightarrow> int \<Rightarrow> (bool \<times> Coder) option" where
  "encodeMPS c probability' =
     (let c1 = c\<lparr>intervalSize := intervalSize c - probability'\<rparr>
      in if intervalSize c1 < 0x8000
         then (let c2 = (if intervalSize c1 < probability'
                         then c1\<lparr>intervalBase := intervalBase c1 + intervalSize c1,
                                 intervalSize := probability'\<rparr>
                         else c1)
               in map_option (\<lambda>c3. (True, c3)) (Coder_renormalize c2))
         else Some (False, c1))"

definition encodeLPS :: "Coder \<Rightarrow> int \<Rightarrow> Coder option" where
  "encodeLPS c probability' =
     Coder_renormalize
       (if intervalSize c - probability' < probability'
        then c\<lparr>intervalSize := intervalSize c - probability'\<rparr>
        else c\<lparr>intervalBase := intervalBase c + (intervalSize c - probability'),
               intervalSize := probability'\<rparr>)"

text \<open>
  \<open>encodeDecision\<close> returns \<open>[nextState, swapMPS]\<close>; \<open>transition && nextStateMPS\<close>
  is a state number or a falsy value (\<open>None\<close>), and the second component is used for its
  truth value only.
\<close>

definition encodeDecision ::
  "Coder \<Rightarrow> bool \<Rightarrow> bool \<Rightarrow> int \<Rightarrow> nat \<Rightarrow> nat \<Rightarrow> nat \<Rightarrow> ((nat option \<times> bool) \<times> Coder) option" where
  "encodeDecision c bit' mps probability' nextStateMPS nextStateLPS swapMPS' =
     (if bit' = mps
      then map_option (\<lambda>(transition, c'). ((if transition then Some nextStateMPS else None, False), c'))
             (encodeMPS c probability')
      else map_option (\<lambda>c'. ((Some nextStateLPS, swapMPS' \<noteq> 0), c')) (encodeLPS c probability'))"

text \<open>
  \<open>encodeBit\<close>. \<open>stateTable[stats.states[context]]\<close> is \<open>undefined\<close> when the
  context index is outside the statistics area (or the stored state outside the table),
  and reading \<open>state.probability\<close> then throws a \<open>TypeError\<close>.
\<close>

definition encodeBit :: "Coder \<Rightarrow> bool \<Rightarrow> Statistics \<Rightarrow> int \<Rightarrow> (js_error + Coder \<times> Statistics) option" where
  "encodeBit c bit' stats context =
     (case Option.bind (stateAt stats context) (\<lambda>n. elemAt stateTable (int n)) of
        None \<Rightarrow> Some (Inl (TypeError ''Cannot read properties of undefined''))
      | Some state \<Rightarrow>
          (let mps = mpsAt stats context
           in map_option
                (\<lambda>((nextState, swap), c'). Inr (c', updateStatistics stats context mps nextState swap))
                (encodeDecision c bit' mps (probability state) (nextMPS state) (nextLPS state)
                   (swapMPS state))))"

fun stripTrailingZeroes :: "int list \<Rightarrow> int list" where
  \<comment> \<open>\<open>while (output[output.length-1] === 0) output.pop()\<close>, on the reversed list\<close>
  "stripTrailingZeroes [] = []"
| "stripTrailingZeroes (x # xs) = (if x = 0 then stripTrailingZeroes xs else x # xs)"

definition flush :: "Coder \<Rightarrow> int list" where
  "flush c =
     (let intervalTop = intervalBase c + intervalSize c - 1;
          chosenPoint = js_and intervalTop 0xFFFF0000;
          chosenPoint1 = (if chosenPoint < intervalBase c then chosenPoint + 0x8000 else chosenPoint);
          c1 = c\<lparr>intervalBase := js_shl chosenPoint1 (neededBits c)\<rparr>;
          c2 = emitOutputByte c1;
          c3 = emitOutputByte (c2\<lparr>intervalBase := js_shl (intervalBase c2) 8\<rparr>);
          out = rev (stripTrailingZeroes (rev (output_bytes c3)))
      in if out \<noteq> [] \<and> last out = 0xFF then out @ [0] else out)"

section \<open>The arithmetic decoder (arithmetic.js, class Decoder)\<close>

text \<open>
  \<open>contexts\<close> is a history variable, not a field of the JavaScript object: it records,
  in order, the context index of every call of \<open>decodeBit\<close>.
\<close>

record Decoder = Interval +
  input :: "int list"
  contexts :: "int list"

definition consumeInputByte :: "Decoder \<Rightarrow> Decoder" where
  "consumeInputByte d =
     (case input d of
        [] \<Rightarrow> d
      | b # rest \<Rightarrow> d\<lparr>intervalBase := intervalBase d + js_shl b 8, input := rest\<rparr>)"

definition new_Decoder :: "int list \<Rightarrow> Decoder" where
  "new_Decoder inp =
     (let d0 = \<lparr>intervalBase = 0, intervalSize = 0x10000, neededBits = 0, input = inp,
                contexts = []\<rparr>;
          d1 = consumeInputByte d0;
          d2 = d1\<lparr>intervalBase := js_shl (intervalBase d1) 8\<rparr>;
          d3 = consumeInputByte d2
      in d3\<lparr>intervalBase := js_shl (intervalBase d3) 8\<rparr>)"

text \<open>\<open>Decoder.renormalize\<close>: a \<open>do ... while\<close> loop; it does not end when the size is 0.\<close>

partial_function (option) renormalize :: "Decoder \<Rightarrow> Decoder option" where
  "renormalize d =
     (let d1 = (if neededBits d = 0 then (consumeInputByte d)\<lparr>neededBits := 8\<rparr> else d);
          d2 = d1\<lparr>intervalSize := js_shl (intervalSize d1) 1,
                  intervalBase := js_shl (intervalBase d1) 1,
                  neededBits := neededBits d1 - 1\<rparr>
      in if intervalSize d2 < 0x8000 then renormalize d2 else Some d2)"

text \<open>
  \<open>decodeDecision\<close> returns \<open>[result, nextState, swapMPS]\<close>; the early return gives
  \<open>nextState = null\<close>.
\<close>

definition decodeDecision ::
  "Decoder \<Rightarrow> int \<Rightarrow> bool \<Rightarrow> nat \<Rightarrow> nat \<Rightarrow> nat \<Rightarrow> ((bool \<times> nat option \<times> bool) \<times> Decoder) option" where
  "decodeDecision d probability' mps nextStateMPS nextStateLPS swapMPS' =
     (let d1 = d\<lparr>intervalSize := intervalSize d - probability'\<rparr>;
          finish = (\<lambda>result d'.
             map_option
               (\<lambda>d''. ((result, Some (if result = mps then nextStateMPS else nextStateLPS),
                        result \<noteq> mps \<and> swapMPS' \<noteq> 0), d''))
               (renormalize d'))
      in if js_ushr (intervalBase d1) 16 < intervalSize d1
         then (if intervalSize d1 < 0x8000
               then finish ((intervalSize d1 < probability') \<noteq> mps) d1
               else Some ((mps, None, False), d1))
         else finish ((intervalSize d1 \<ge> probability') \<noteq> mps)
                (d1\<lparr>intervalBase := intervalBase d1 - js_shl (intervalSize d1) 16,
                    intervalSize := probability'\<rparr>))"

text \<open>
  \<open>decodeBit\<close>. As in \<open>encodeBit\<close>, a context index outside the statistics area
  makes \<open>state\<close> \<open>undefined\<close> and \<open>state.probability\<close> throws a \<open>TypeError\<close>;
  the decoder object is unchanged then, and the model returns it with the error, so that
  the history of context indices is known after a throw as well.
\<close>

definition decodeBit ::
  "Decoder \<Rightarrow> Statistics \<Rightarrow> int \<Rightarrow> (js_error \<times> Decoder + bool \<times> Decoder \<times> Statistics) option" where
  "decodeBit d0 stats context =
     (let d = d0\<lparr>contexts := contexts d0 @ [context]\<rparr>
      in case Option.bind (stateAt stats context) (\<lambda>n. elemAt stateTable (int n)) of
           None \<Rightarrow> Some (Inl (TypeError ''Cannot read properties of undefined'', d))
         | Some state \<Rightarrow>
             (let mps = mpsAt stats context
              in map_option
                   (\<lambda>((result, nextState, swap), d').
                      Inr (result, d', updateStatistics stats context mps nextState swap))
                   (decodeDecision d (probability state) mps (nextMPS state) (nextLPS state)
                      (swapMPS state))))"

section \<open>The bit reader (jpeg.js, readBits)\<close>

text \<open>
  \<open>readBits(buffer, index, bitIndex, nBits)\<close> returns \<open>[index, bitIndex, result]\<close>.
  The only \<open>throw\<close> is the one for \<open>nBits > 32\<close>; the buffer is read through
  \<open>byteAt\<close>, since every read is the operand of a bitwise operator.
\<close>

function readWholeBytes :: "byte list \<Rightarrow> nat \<Rightarrow> int \<Rightarrow> int \<Rightarrow> nat \<times> int \<times> int" where
  \<comment> \<open>\<open>while (nBits >= 8) { result = (result << 8) | buffer[index++]; nBits -= 8; }\<close>\<close>
  "readWholeBytes buffer index nBits result =
     (if nBits \<ge> 8
      then readWholeBytes buffer (index + 1) (nBits - 8) (js_or (js_shl result 8) (byteAt buffer index))
      else (index, nBits, result))"
  by pat_completeness auto
termination
  by (relation "measure (\<lambda>(buffer, index, nBits, result). nat nBits)") auto

definition readBits :: "byte list \<Rightarrow> nat \<Rightarrow> int \<Rightarrow> int \<Rightarrow> js_error + nat \<times> int \<times> int" where
  "readBits buffer index bitIndex nBits =
     (if nBits > 32 then Inl (Error ''readBits can only return up to 32 bits at a time'')
      else if bitIndex \<noteq> 0 \<and> 8 - bitIndex \<ge> nBits
      then (let result = js_and (js_shr (byteAt buffer index) (8 - bitIndex - nBits))
                                (js_shl 1 nBits - 1);
                bitIndex1 = bitIndex + nBits
            in if bitIndex1 = 8 then Inr (index + 1, 0, result) else Inr (index, bitIndex1, result))
      else (let (index1, nBits1, bitIndex1, result1) =
                  (if bitIndex \<noteq> 0
                   then (index + 1, nBits - (8 - bitIndex), 0,
                         js_and (byteAt buffer index) (js_shl 1 (8 - bitIndex) - 1))
                   else (index, nBits, bitIndex, 0));
                (index2, nBits2, result2) = readWholeBytes buffer index1 nBits1 result1
            in if nBits2 \<noteq> 0
               then Inr (index2, nBits2,
                         js_or (js_shl result2 nBits2) (js_shr (byteAt buffer index2) (8 - nBits2)))
               else Inr (index2, bitIndex1, result2)))"

text \<open>
  The bit sequence of a buffer, most significant bit of each byte first, continued with
  zero bits past its end; and the big-endian number that \<open>n\<close> bits starting at bit
  position \<open>p\<close> spell.
\<close>

definition bitOf :: "byte list \<Rightarrow> nat \<Rightarrow> bool" where
  "bitOf buffer p = bit (byteAt buffer (p div 8)) (7 - p mod 8)"

fun bitsValue :: "byte list \<Rightarrow> nat \<Rightarrow> nat \<Rightarrow> int" where
  "bitsValue buffer p 0 = 0"
| "bitsValue buffer p (Suc n) = 2 * bitsValue buffer p n + (if bitOf buffer (p + n) then 1 else 0)"

section \<open>Huffman table segments (jpeg.js, readHuffmanTable)\<close>

text \<open>
  A JavaScript \<open>Map\<close> keeps its keys in insertion order; \<open>set\<close> on a key that is
  present replaces the value where it stands. Bit strings are strings of the characters
  0 and 1.
\<close>

type_synonym ('k, 'v) js_map = "('k \<times> 'v) list"

fun map_set :: "('k, 'v) js_map \<Rightarrow> 'k \<Rightarrow> 'v \<Rightarrow> ('k, 'v) js_map" where
  "map_set [] k v = [(k, v)]"
| "map_set ((k', v') # m) k v = (if k' = k then (k, v) # m else (k', v') # map_set m k v)"

fun binaryDigits :: "nat \<Rightarrow> string" where
  "binaryDigits n =
     (if n < 2 then [if n = 0 then CHR ''0'' else CHR ''1'']
      else binaryDigits (n div 2) @ [if n mod 2 = 0 then CHR ''0'' else CHR ''1''])"

definition toString2 :: "int \<Rightarrow> string" where
  \<comment> \<open>\<open>n.toString(2)\<close> for an integer\<close>
  "toString2 n = (if n < 0 then CHR ''-'' # binaryDigits (nat (- n)) else binaryDigits (nat n))"

definition padStart :: "string \<Rightarrow> nat \<Rightarrow> char \<Rightarrow> string" where
  "padStart s targetLength c = replicate (targetLength - length s) c @ s"

text \<open>
  The inner \<open>while (nCodes-- > 0)\<close> loop: one code per round, its symbol read at
  \<open>nextValueIndex\<close> (\<open>undefined\<close>, written \<open>None\<close>, past the end of the buffer).
\<close>

fun codesOfLength ::
  "byte list \<Rightarrow> nat \<Rightarrow> nat \<Rightarrow> (string, byte option) js_map \<times> int \<times> nat \<Rightarrow>
   (string, byte option) js_map \<times> int \<times> nat" where
  "codesOfLength buffer codeLen 0 (codes, nextCode, nextValueIndex) =
     (codes, nextCode, nextValueIndex)"
| "codesOfLength buffer codeLen (Suc nCodes) (codes, nextCode, nextValueIndex) =
     codesOfLength buffer codeLen nCodes
       (map_set codes (padStart (toString2 nextCode) codeLen (CHR ''0''))
          (if nextValueIndex < length buffer then Some (buffer ! nextValueIndex) else None),
        nextCode + 1, nextValueIndex + 1)"

text \<open>
  The outer loop over \<open>codeLen = 1, \<dots>, 16\<close>: the codes of that length, then
  \<open>nextCode <<= 1\<close>. A count read past the end of the buffer is \<open>undefined\<close>, and
  \<open>undefined-- > 0\<close> is false: no code of that length.
\<close>

definition nCodesAt :: "byte list \<Rightarrow> nat \<Rightarrow> nat" where
  "nCodesAt buffer i = (if i < length buffer then unat (buffer ! i) else 0)"

fun shiftNextCode ::
  "(string, byte option) js_map \<times> int \<times> nat \<Rightarrow> (string, byte option) js_map \<times> int \<times> nat" where
  "shiftNextCode (codes, nextCode, nextValueIndex) = (codes, js_shl nextCode 1, nextValueIndex)"

fun codeLengthLoop ::
  "byte list \<Rightarrow> nat \<Rightarrow> nat list \<Rightarrow> (string, byte option) js_map \<times> int \<times> nat \<Rightarrow>
   (string, byte option) js_map \<times> int \<times> nat" where
  "codeLengthLoop buffer index [] st = st"
| "codeLengthLoop buffer index (codeLen # codeLens) st =
     codeLengthLoop buffer index codeLens
       (shiftNextCode (codesOfLength buffer codeLen (nCodesAt buffer (index + codeLen)) st))"

record HuffmanTable =
  table_type :: int
  table_number :: int
  codes :: "(string, byte option) js_map"
  table_start :: nat
  table_end :: nat

definition readHuffmanTable :: "byte list \<Rightarrow> nat \<Rightarrow> HuffmanTable" where
  "readHuffmanTable buffer index =
     (let (codes', nextCode, nextValueIndex) = codeLengthLoop buffer index [1..<17] ([], 0, index + 17)
      in \<lparr>table_type = js_shr (byteAt buffer index) 4,
          table_number = js_and (byteAt buffer index) 0xF,
          codes = codes', table_start = index, table_end = nextValueIndex\<rparr>)"

text \<open>
  The canonical code construction in the specification's words: \<open>nextCode\<close> starts at
  0; for each length, \<open>L\<close> symbols get the codes \<open>nextCode, nextCode + 1, \<dots>\<close>,
  written with exactly \<open>len\<close> bits, and then \<open>nextCode = (nextCode + L) << 1\<close>.
\<close>

definition bitstring :: "nat \<Rightarrow> nat \<Rightarrow> string" where
  \<comment> \<open>the \<open>len\<close> low bits of \<open>n\<close>, most significant first\<close>
  "bitstring len n = map (\<lambda>i. if bit n (len - 1 - i) then CHR ''1'' else CHR ''0'') [0..<len]"

fun canonical_codes :: "nat \<Rightarrow> nat \<Rightarrow> nat list \<Rightarrow> byte list \<Rightarrow> (string \<times> byte) list" where
  "canonical_codes len nextCode [] symbols = []"
| "canonical_codes len nextCode (L # Ls) symbols =
     zip (map (bitstring len) [nextCode..<nextCode + L]) (take L symbols) @
     canonical_codes (len + 1) (2 * (nextCode + L)) Ls (drop L symbols)"

text \<open>
  The counts do not over-subscribe the code space: at every length the codes assigned so
  far fit into \<open>len\<close> bits.
\<close>

fun fits_code_space :: "nat \<Rightarrow> nat \<Rightarrow> nat list \<Rightarrow> bool" where
  "fits_code_space len nextCode [] = True"
| "fits_code_space len nextCode (L # Ls) =
     (nextCode + L \<le> 2 ^ len \<and> fits_code_space (len + 1) (2 * (nextCode + L)) Ls)"

text \<open>
  The keys a map holds while the codes of length \<open>len\<close> are assigned: shorter than
  \<open>len\<close>, or one of the \<open>len\<close>-bit codes below \<open>c\<close>.
\<close>

definition keys_below :: "(string, byte option) js_map \<Rightarrow> nat \<Rightarrow> nat \<Rightarrow> bool" where
  "keys_below cs len c = (\<forall>k\<in>fst ` set cs. length k < len \<or> (\<exists>c'<c. k = bitstring len c'))"

text \<open>The length counts \<open>L\<close> of a table that starts at \<open>index\<close>, for the given lengths.\<close>

definition countsAt :: "byte list \<Rightarrow> nat \<Rightarrow> nat list \<Rightarrow> nat list" where
  "countsAt buffer index lens = map (\<lambda>k. unat (buffer ! (index + k))) lens"

definition oversubscribed_payload :: "byte list" where
  \<comment> \<open>three codes of length 1\<close>
  "oversubscribed_payload = [0, 3, 0, 0, 0, 0, 0, 0, 0, 0, 0, 0, 0, 0, 0, 0, 0, 7, 8, 9]"

definition K33_payload :: "byte list" where
  \<comment> \<open>the example of the specification's scenario 1\<close>
  "K33_payload = [0, 0, 1, 5, 1, 1, 1, 1, 1, 1, 0, 0, 0, 0, 0, 0, 0,
                  0, 1, 2, 3, 4, 5, 6, 7, 8, 9, 10, 11]"

section \<open>Color conversion and painting (jpeg.js)\<close>

text \<open>
  Samples are JavaScript numbers, modelled as reals; \<open>None\<close> stands for \<open>NaN\<close>,
  which is also what arithmetic on \<open>undefined\<close> (a read outside an array, or of a slot
  never written) gives. The raster is a \<open>Buffer\<close>: a store converts the number to an
  integer by truncation and keeps it modulo 256 (\<open>NaN\<close> becomes 0), and a store outside
  the buffer is ignored. \<open>raster_writes\<close> is a history variable, not part of the
  JavaScript object: every store appends the index it was given, inside the buffer or not.
\<close>

type_synonym number = "real option"

record raster =
  raster_bytes :: "byte list"
  raster_writes :: "nat list"

definition alloc :: "nat \<Rightarrow> raster" where
  \<comment> \<open>\<open>Buffer.alloc(size)\<close>, zero-filled\<close>
  "alloc size' = \<lparr>raster_bytes = replicate size' 0, raster_writes = []\<rparr>"

definition sampleAt :: "number list \<Rightarrow> nat \<Rightarrow> number" where
  "sampleAt block k = (if k < length block then block ! k else None)"

definition toUint8 :: "number \<Rightarrow> byte" where
  "toUint8 v =
     (case v of
        None \<Rightarrow> 0
      | Some x \<Rightarrow> word_of_int (if x \<ge> 0 then \<lfloor>x\<rfloor> else \<lceil>x\<rceil>))"

definition storeByte :: "raster \<Rightarrow> nat \<Rightarrow> number \<Rightarrow> raster" where
  \<comment> \<open>\<open>raster[i] = v\<close>\<close>
  "storeByte raster i v =
     \<lparr>raster_bytes = (if i < length (raster_bytes raster)
                       then (raster_bytes raster)[i := toUint8 v] else raster_bytes raster),
      raster_writes = raster_writes raster @ [i]\<rparr>"

definition clampRGB :: "real \<Rightarrow> real" where
  \<comment> \<open>\<open>Math.round(Math.min(Math.max(value, 0), 255))\<close>; \<open>Math.round\<close> rounds half up\<close>
  "clampRGB v = of_int \<lfloor>min (max v 0) 255 + 1 / 2\<rfloor>"

text \<open>
  \<open>paintGrayscalePixels\<close>: the chained assignment stores the same number
  \<open>samples[0][y*8 + x] + 128\<close> at three consecutive raster indices, the rightmost
  assignment first. \<open>width\<close> is \<open>this.frameData.width\<close>. \<open>samples[0]\<close> of an
  empty array is \<open>undefined\<close>, and indexing it throws, in the first pixel.
\<close>

definition paintGrayscalePixels ::
  "nat \<Rightarrow> raster \<Rightarrow> number list list \<Rightarrow> nat \<Rightarrow> nat \<Rightarrow> nat \<Rightarrow> nat \<Rightarrow> js_error + raster" where
  "paintGrayscalePixels width raster samples xStart xEnd yStart yEnd =
     (if samples = [] \<and> yEnd - yStart > 0 \<and> xEnd - xStart > 0
      then Inl (TypeError ''Cannot read properties of undefined'')
      else Inr (fold (\<lambda>y raster.
                  fold (\<lambda>x raster.
                    (let rasterIndex = (((y + yStart) * width) + x + xStart) * 3;
                         v = map_option (\<lambda>s. s + 128) (sampleAt (samples ! 0) (y * 8 + x))
                     in storeByte (storeByte (storeByte raster (rasterIndex + 2) v)
                                     (rasterIndex + 1) v) rasterIndex v))
                    [0..<xEnd - xStart] raster)
                  [0..<yEnd - yStart] raster))"

text \<open>
  \<open>convertYCbCrtoRGB\<close>: a colour is \<open>NaN\<close> when one of the samples it is computed
  from is, and \<open>clampRGB\<close> keeps \<open>NaN\<close>.
\<close>

definition convertYCbCrtoRGB :: "raster \<Rightarrow> nat \<Rightarrow> number \<Rightarrow> number \<Rightarrow> number \<Rightarrow> raster" where
  "convertYCbCrtoRGB raster index' y cb cr =
     (let r = (case (y, cr) of
                 (Some y', Some cr') \<Rightarrow> Some (clampRGB (y' + (cr' * (1402 / 1000)) + 128))
               | _ \<Rightarrow> None);
          g = (case (y, cb, cr) of
                 (Some y', Some cb', Some cr') \<Rightarrow>
                   Some (clampRGB (y' - ((34414 / 100000) * cb') - ((71414 / 100000) * cr') + 128))
               | _ \<Rightarrow> None);
          b = (case (y, cb) of
                 (Some y', Some cb') \<Rightarrow> Some (clampRGB (y' + (cb' * (1772 / 1000)) + 128))
               | _ \<Rightarrow> None)
      in storeByte (storeByte (storeByte raster index' r) (index' + 1) g) (index' + 2) b)"

text \<open>
  \<open>paintYCbCrPixels\<close> reads \<open>samples[0]\<close>, \<open>samples[1]\<close> and \<open>samples[2]\<close> for every
  pixel; with fewer than three sample arrays the first pixel throws.
\<close>

definition paintYCbCrPixels ::
  "nat \<Rightarrow> raster \<Rightarrow> number list list \<Rightarrow> nat \<Rightarrow> nat \<Rightarrow> nat \<Rightarrow> nat \<Rightarrow> nat \<Rightarrow> js_error + raster" where
  "paintYCbCrPixels width raster samples lineWidth xStart xEnd yStart yEnd =
     (if length samples < 3 \<and> yEnd - yStart > 0 \<and> xEnd - xStart > 0
      then Inl (TypeError ''Cannot read properties of undefined'')
      else Inr (fold (\<lambda>y raster.
                  fold (\<lambda>x raster.
                    (let rasterIndex = (((y + yStart) * width) + x + xStart) * 3
                     in convertYCbCrtoRGB raster rasterIndex
                          (sampleAt (samples ! 0) (y * lineWidth + x))
                          (sampleAt (samples ! 1) (y * lineWidth + x))
                          (sampleAt (samples ! 2) (y * lineWidth + x))))
                    [0..<xEnd - xStart] raster)
                  [0..<yEnd - yStart] raster))"

section \<open>Byte stuffing (jpeg.js, removeByteStuffing)\<close>

text \<open>
  \<open>Buffer\<close> operations: \<open>buffer.indexOf(value, from)\<close> (\<open>None\<close> for -1) and
  \<open>buffer.copy(buffer, targetStart, sourceStart, sourceEnd)\<close> onto the buffer itself,
  which moves as many bytes as fit and keeps the length.
\<close>

fun indexFrom :: "byte list \<Rightarrow> byte \<Rightarrow> nat \<Rightarrow> nat option" where
  \<comment> \<open>the first position of \<open>v\<close> in \<open>xs\<close>, counted from \<open>offset\<close>\<close>
  "indexFrom [] v offset = None"
| "indexFrom (x # xs) v offset = (if x = v then Some offset else indexFrom xs v (offset + 1))"

definition indexOf :: "byte list \<Rightarrow> byte \<Rightarrow> nat \<Rightarrow> nat option" where
  "indexOf buffer v from_index = indexFrom (drop from_index buffer) v from_index"

definition copyWithin :: "byte list \<Rightarrow> nat \<Rightarrow> nat \<Rightarrow> nat \<Rightarrow> byte list" where
  "copyWithin buffer targetStart sourceStart sourceEnd =
     (let n = min (min sourceEnd (length buffer) - sourceStart) (length buffer - targetStart)
      in take targetStart buffer @ take n (drop sourceStart buffer) @ drop (targetStart + n) buffer)"

definition stuffedAt :: "byte list \<Rightarrow> nat option \<Rightarrow> bool" where
  \<comment> \<open>\<open>ff !== -1 && buffer[ff+1] === 0\<close>\<close>
  "stuffedAt buffer ff =
     (case ff of None \<Rightarrow> False | Some i \<Rightarrow> i + 1 < length buffer \<and> buffer ! (i + 1) = 0)"

lemma indexFrom_ge: "indexFrom xs v offset = Some i \<Longrightarrow> offset \<le> i \<and> i < offset + length xs"
proof (induction xs arbitrary: offset)
  case Nil
  then show ?case by simp
next
  case (Cons x xs)
  show ?case
  proof (cases "x = v")
    case True
    then show ?thesis using Cons.prems by simp
  next
    case False
    then have "indexFrom xs v (offset + 1) = Some i" using Cons.prems by simp
    then have "offset + 1 \<le> i \<and> i < offset + 1 + length xs" by (rule Cons.IH)
    then show ?thesis by simp
  qed
qed

lemma length_copyWithin: "length (copyWithin buffer t s e) = length buffer"
  unfolding copyWithin_def Let_def by simp arith

text \<open>
  The \<open>while (true)\<close> loop of \<open>removeByteStuffing\<close>. \<open>ff\<close> is where the last 0xFF
  was copied down to, \<open>searchIndex\<close> where the next range of good bytes starts.
\<close>

function removeStuffingLoop :: "byte list \<Rightarrow> nat \<Rightarrow> nat \<Rightarrow> byte list" where
  "removeStuffingLoop buffer ff searchIndex =
     (case indexOf buffer 0xFF searchIndex of
        Some ff2 \<Rightarrow>
          if stuffedAt buffer (Some ff2)
          then removeStuffingLoop (copyWithin buffer (ff + 1) searchIndex (ff2 + 1))
                 (ff + ff2 - searchIndex + 1) (ff2 + 2)
          else take (ff + length buffer - searchIndex + 1)
                 (copyWithin buffer (ff + 1) searchIndex (length buffer))
      | None \<Rightarrow>
          take (ff + length buffer - searchIndex + 1)
            (copyWithin buffer (ff + 1) searchIndex (length buffer)))"
  by pat_completeness auto
termination
proof (relation "measure (\<lambda>(buffer, ff, searchIndex). length buffer + 2 - searchIndex)")
  show "wf (measure (\<lambda>(buffer, ff, searchIndex). length buffer + 2 - searchIndex))"
    by simp
next
  fix buffer :: "byte list" and ff searchIndex ff2
  assume "indexOf buffer 0xFF searchIndex = Some ff2" and "stuffedAt buffer (Some ff2)"
  then have "searchIndex \<le> ff2" "ff2 + 1 < length buffer"
    by (auto simp: indexOf_def stuffedAt_def dest: indexFrom_ge)
  then show "((copyWithin buffer (ff + 1) searchIndex (ff2 + 1), ff + ff2 - searchIndex + 1, ff2 + 2),
              (buffer, ff, searchIndex))
             \<in> measure (\<lambda>(buffer, ff, searchIndex). length buffer + 2 - searchIndex)"
    by (simp add: length_copyWithin)
qed

definition removeByteStuffing :: "byte list \<Rightarrow> byte list" where
  "removeByteStuffing buffer =
     (case indexOf buffer 0xFF 0 of
        None \<Rightarrow> buffer
      | Some ff \<Rightarrow> if stuffedAt buffer (Some ff) then removeStuffingLoop buffer ff (ff + 2)
                  else buffer)"

section \<open>Encoding and decoding a bit sequence in one context\<close>

text \<open>
  The round trip the specification states: the bits are encoded one by one with
  \<open>encodeBit\<close> in a fixed context, the coder is flushed, the stuffed zero bytes are
  removed, and as many bits are decoded again with \<open>decodeBit\<close> from a fresh decoder
  and fresh statistics.
\<close>

fun encodeBits :: "Coder \<Rightarrow> Statistics \<Rightarrow> int \<Rightarrow> bool list \<Rightarrow> (js_error + Coder \<times> Statistics) option" where
  "encodeBits c stats context [] = Some (Inr (c, stats))"
| "encodeBits c stats context (b # bs) =
     (case encodeBit c b stats context of
        None \<Rightarrow> None
      | Some (Inl e) \<Rightarrow> Some (Inl e)
      | Some (Inr (c', stats')) \<Rightarrow> encodeBits c' stats' context bs)"

fun decodeBits :: "Decoder \<Rightarrow> Statistics \<Rightarrow> int \<Rightarrow> nat \<Rightarrow> (js_error + bool list) option" where
  "decodeBits d stats context 0 = Some (Inr [])"
| "decodeBits d stats context (Suc n) =
     (case decodeBit d stats context of
        None \<Rightarrow> None
      | Some (Inl (e, d')) \<Rightarrow> Some (Inl e)
      | Some (Inr (b, d', stats')) \<Rightarrow>
          (case decodeBits d' stats' context n of
             None \<Rightarrow> None
           | Some (Inl e) \<Rightarrow> Some (Inl e)
           | Some (Inr bs) \<Rightarrow> Some (Inr (b # bs))))"

definition encodeSequence :: "nat \<Rightarrow> int \<Rightarrow> bool list \<Rightarrow> (js_error + int list) option" where
  "encodeSequence nContexts context bits =
     (case encodeBits new_Coder (new_Statistics nContexts) context bits of
        None \<Rightarrow> None
      | Some (Inl e) \<Rightarrow> Some (Inl e)
      | Some (Inr (c, stats)) \<Rightarrow> Some (Inr (flush c)))"

definition decodeSequence :: "nat \<Rightarrow> int \<Rightarrow> int list \<Rightarrow> nat \<Rightarrow> (js_error + bool list) option" where
  "decodeSequence nContexts context bytes n =
     decodeBits
       (new_Decoder (map uint (removeByteStuffing (map word_of_int bytes))))
       (new_Statistics nContexts) context n"

definition carry_bits :: "bool list" where
  \<comment> \<open>the sequence 1010000100000100\<close>
  "carry_bits = [True, False, True, False, False, False, False, True,
                 False, False, False, False, False, True, False, False]"


section \<open>Decoding arithmetic-coded coefficients (arithmetic.js, class Decoder)\<close>

text \<open>The context indices named after the JPEG specification (static members).\<close>

definition S0_zero :: int where "S0_zero = 0"
definition S0_small :: int where "S0_small = 4"
definition S0_large :: int where "S0_large = 8"
definition S0_neg_small :: int where "S0_neg_small = 12"
definition S0_neg_large :: int where "S0_neg_large = 16"
definition X1 :: int where "X1 = 20"
definition M2 :: int where "M2 = X1 + 15"
definition X2_low :: int where "X2_low = 189"
definition X2_high :: int where "X2_high = X2_low + 28"

text \<open>
  The statistics areas \<open>handleConditioningSegment\<close> allocates: 49 contexts for a DC
  table, 245 for an AC table.
\<close>

definition new_dcStats :: Statistics where "new_dcStats = new_Statistics 49"
definition new_acStats :: Statistics where "new_acStats = new_Statistics 245"

type_synonym 'a decoded = "(js_error \<times> Decoder + 'a \<times> Decoder \<times> Statistics) option"

text \<open>
  The first loop of \<open>decodeSignMagnitude\<close>,
  \<open>while (this.decodeBit(stats, context)) { context++; magnitude <<= 1; }\<close>.
  It returns the final \<open>context\<close> and \<open>magnitude\<close>.
\<close>

partial_function (option) magnitudeLoop ::
  "Decoder \<Rightarrow> Statistics \<Rightarrow> int \<Rightarrow> int \<Rightarrow> (int \<times> int) decoded" where
  "magnitudeLoop d stats context magnitude =
     (case decodeBit d stats context of
        None \<Rightarrow> None
      | Some (Inl err) \<Rightarrow> Some (Inl err)
      | Some (Inr (b, d', stats')) \<Rightarrow>
          if b then magnitudeLoop d' stats' (context + 1) (js_shl magnitude 1)
          else Some (Inr ((context, magnitude), d', stats')))"

text \<open>
  The second loop, \<open>while (magnitude >>= 1) { if (this.decodeBit(stats, context)) value += magnitude; }\<close>.
  \<open>magnitude\<close> is a 32-bit integer after the shifts; once it is negative the shift
  never reaches 0 and the loop does not end.
\<close>

partial_function (option) valueBitsLoop ::
  "Decoder \<Rightarrow> Statistics \<Rightarrow> int \<Rightarrow> int \<Rightarrow> int \<Rightarrow> int decoded" where
  "valueBitsLoop d stats context magnitude v =
     (if js_shr magnitude 1 \<noteq> 0
      then (case decodeBit d stats context of
              None \<Rightarrow> None
            | Some (Inl err) \<Rightarrow> Some (Inl err)
            | Some (Inr (b, d', stats')) \<Rightarrow>
                valueBitsLoop d' stats' context (js_shr magnitude 1)
                  (if b then v + js_shr magnitude 1 else v))
      else Some (Inr (v, d, stats)))"

text \<open>
  The sign: decoded in \<open>signContext\<close> when that is truthy (\<open>null\<close> and 0 are not),
  with the fixed estimate \<open>decodeDecision(0x5A1D, false)\<close> otherwise, whose missing
  arguments only reach the discarded components of its result.
\<close>

definition decodeSign :: "Decoder \<Rightarrow> Statistics \<Rightarrow> int option \<Rightarrow> int decoded" where
  "decodeSign d stats signContext =
     (if signContext \<noteq> None \<and> signContext \<noteq> Some 0
      then (case decodeBit d stats (the signContext) of
              None \<Rightarrow> None
            | Some (Inl err) \<Rightarrow> Some (Inl err)
            | Some (Inr (b, d', stats')) \<Rightarrow> Some (Inr (if b then - 1 else 1, d', stats')))
      else (case decodeDecision d 0x5A1D False 0 0 0 of
              None \<Rightarrow> None
            | Some ((signBit, nextState, swap), d') \<Rightarrow>
                Some (Inr (if signBit then - 1 else 1, d', stats))))"

definition decodeSignMagnitude ::
  "Decoder \<Rightarrow> Statistics \<Rightarrow> int option \<Rightarrow> int \<Rightarrow> int \<Rightarrow> int \<Rightarrow> int \<Rightarrow> int decoded" where
  "decodeSignMagnitude d stats signContext posContext negContext magContext1 magContext2 =
     (case decodeSign d stats signContext of
        None \<Rightarrow> None
      | Some (Inl err) \<Rightarrow> Some (Inl err)
      | Some (Inr (sign, d1, stats1)) \<Rightarrow>
     (case decodeBit d1 stats1 (if sign = 1 then posContext else negContext) of
        None \<Rightarrow> None
      | Some (Inl err) \<Rightarrow> Some (Inl err)
      | Some (Inr (b2, d2, stats2)) \<Rightarrow>
          if \<not> b2 then Some (Inr (sign, d2, stats2))
          else
     (case decodeBit d2 stats2 magContext1 of
        None \<Rightarrow> None
      | Some (Inl err) \<Rightarrow> Some (Inl err)
      | Some (Inr (b3, d3, stats3)) \<Rightarrow>
          if \<not> b3 then Some (Inr (2 * sign, d3, stats3))
          else
     (case magnitudeLoop d3 stats3 magContext2 4 of
        None \<Rightarrow> None
      | Some (Inl err) \<Rightarrow> Some (Inl err)
      | Some (Inr ((context, magnitude), d4, stats4)) \<Rightarrow>
     (case valueBitsLoop d4 stats4 (context + 14) (js_shr magnitude 1) (js_shr magnitude 1) of
        None \<Rightarrow> None
      | Some (Inl err) \<Rightarrow> Some (Inl err)
      | Some (Inr (v, d5, stats5)) \<Rightarrow> Some (Inr ((v + 1) * sign, d5, stats5)))))))"

definition decodeDCCoefficientDelta ::
  "Decoder \<Rightarrow> Statistics \<Rightarrow> int \<Rightarrow> int \<Rightarrow> int \<Rightarrow> int decoded" where
  "decodeDCCoefficientDelta d stats prevDCDelta lowThreshold highThreshold =
     (let S0 = (if prevDCDelta > lowThreshold \<and> prevDCDelta \<le> highThreshold then S0_small
                else if prevDCDelta > highThreshold then S0_large
                else if - prevDCDelta > lowThreshold \<and> - prevDCDelta \<le> highThreshold
                     then S0_neg_small
                else if - prevDCDelta > highThreshold then S0_neg_large
                else S0_zero)
      in case decodeBit d stats S0 of
           None \<Rightarrow> None
         | Some (Inl err) \<Rightarrow> Some (Inl err)
         | Some (Inr (b, d', stats')) \<Rightarrow>
             if \<not> b then Some (Inr (0, d', stats'))
             else decodeSignMagnitude d' stats' (Some (S0 + 1)) (S0 + 2) (S0 + 3) X1 (X1 + 1))"

text \<open>
  The zero-run loop of \<open>decodeACCoefficients\<close>,
  \<open>while (!this.decodeBit(stats, S0)) { acCoefficients.push(0); zigZagIndex++; S0 += 3; SN_SP += 3; X1 += 3; }\<close>.
\<close>

partial_function (option) zeroRunLoop ::
  "Decoder \<Rightarrow> Statistics \<Rightarrow> int \<Rightarrow> int \<Rightarrow> int \<Rightarrow> int \<Rightarrow> int list \<Rightarrow>
   (int \<times> int \<times> int \<times> int list) decoded" where
  "zeroRunLoop d stats S0 SN_SP X1' zigZagIndex acCoefficients =
     (case decodeBit d stats S0 of
        None \<Rightarrow> None
      | Some (Inl err) \<Rightarrow> Some (Inl err)
      | Some (Inr (b, d', stats')) \<Rightarrow>
          if \<not> b
          then zeroRunLoop d' stats' (S0 + 3) (SN_SP + 3) (X1' + 3) (zigZagIndex + 1)
                 (acCoefficients @ [0])
          else Some (Inr ((zigZagIndex, SN_SP, X1', acCoefficients), d', stats')))"

definition padZeroes :: "int list \<Rightarrow> int \<Rightarrow> int list" where
  \<comment> \<open>\<open>while (acCoefficients.length <= n) acCoefficients.push(0)\<close>\<close>
  "padZeroes acCoefficients n = acCoefficients @ replicate (nat (n + 1) - length acCoefficients) 0"

text \<open>The \<open>do ... while\<close> loop of \<open>decodeACCoefficients\<close>.\<close>

partial_function (option) decodeACLoop ::
  "Decoder \<Rightarrow> Statistics \<Rightarrow> int \<Rightarrow> int \<Rightarrow> int \<Rightarrow> int \<Rightarrow> int list \<Rightarrow> (int list) decoded" where
  "decodeACLoop d stats threshold spectralStart spectralEnd zigZagIndex acCoefficients =
     (case decodeBit d stats (3 * zigZagIndex) of
        None \<Rightarrow> None
      | Some (Inl err) \<Rightarrow> Some (Inl err)
      | Some (Inr (endOfBlock, d1, stats1)) \<Rightarrow>
          if endOfBlock
          then Some (Inr (padZeroes acCoefficients (spectralEnd - spectralStart), d1, stats1))
          else
     (case zeroRunLoop d1 stats1 (3 * zigZagIndex + 1) (3 * zigZagIndex + 1 + 1)
             (3 * zigZagIndex + 1 + 1) zigZagIndex acCoefficients of
        None \<Rightarrow> None
      | Some (Inl err) \<Rightarrow> Some (Inl err)
      | Some (Inr ((zigZagIndex2, SN_SP, X1', acCoefficients2), d2, stats2)) \<Rightarrow>
     (case decodeSignMagnitude d2 stats2 None SN_SP SN_SP X1'
             (if zigZagIndex2 < threshold then X2_low else X2_high) of
        None \<Rightarrow> None
      | Some (Inl err) \<Rightarrow> Some (Inl err)
      | Some (Inr (coefficient, d3, stats3)) \<Rightarrow>
          if int (length (acCoefficients2 @ [coefficient])) \<le> spectralEnd - spectralStart
          then decodeACLoop d3 stats3 threshold spectralStart spectralEnd (zigZagIndex2 + 1)
                 (acCoefficients2 @ [coefficient])
          else Some (Inr (acCoefficients2 @ [coefficient], d3, stats3)))))"

definition decodeACCoefficients ::
  "Decoder \<Rightarrow> Statistics \<Rightarrow> int \<Rightarrow> int \<Rightarrow> int \<Rightarrow> (int list) decoded" where
  "decodeACCoefficients d stats threshold spectralStart spectralEnd =
     decodeACLoop d stats threshold spectralStart spectralEnd (spectralStart - 1) []"

text \<open>What a run of the decoder did: the context indices it passed to \<open>decodeBit\<close>,
  whether it returned or threw.\<close>

definition contextsOf :: "'a decoded \<Rightarrow> int list option" where
  "contextsOf r =
     (case r of
        None \<Rightarrow> None
      | Some (Inl (err, d)) \<Rightarrow> Some (contexts d)
      | Some (Inr (v, d, stats)) \<Rightarrow> Some (contexts d))"

definition thrown :: "'a decoded \<Rightarrow> js_error option" where
  "thrown r = (case r of Some (Inl (err, d)) \<Rightarrow> Some err | _ \<Rightarrow> None)"

definition returned :: "'a decoded \<Rightarrow> 'a option" where
  "returned r = (case r of Some (Inr (v, d, stats)) \<Rightarrow> Some v | _ \<Rightarrow> None)"

text \<open>
  A statistics area with \<open>n\<close> contexts, and a list of context indices that all lie
  inside such an area.
\<close>

definition sized :: "nat \<Rightarrow> Statistics \<Rightarrow> bool" where
  "sized n stats \<longleftrightarrow> length (states stats) = n \<and> length (moreProbableSymbol stats) = n"

definition inBounds :: "nat \<Rightarrow> int list \<Rightarrow> bool" where
  "inBounds n cs = list_all (\<lambda>c. 0 \<le> c \<and> c < int n) cs"

text \<open>
  A well-formed statistics area also holds only state numbers of the state table. A run
  that started with decoder \<open>d\<close> is well-behaved when it returned having passed only
  context indices inside the area, or threw at the first index outside it.
\<close>

definition wf_stats :: "nat \<Rightarrow> Statistics \<Rightarrow> bool" where
  "wf_stats n stats \<longleftrightarrow> sized n stats \<and> list_all (\<lambda>s. s < length stateTable) (states stats)"

definition returned_ok :: "nat \<Rightarrow> Decoder \<Rightarrow> Decoder \<Rightarrow> bool" where
  "returned_ok n d d' \<longleftrightarrow> (\<exists>cs. contexts d' = contexts d @ cs \<and> inBounds n cs)"

definition thrown_ok :: "nat \<Rightarrow> Decoder \<Rightarrow> Decoder \<Rightarrow> bool" where
  "thrown_ok n d d' \<longleftrightarrow>
     (\<exists>cs c. contexts d' = contexts d @ cs @ [c] \<and> inBounds n cs \<and> (c < 0 \<or> int n \<le> c))"

definition run_ok :: "nat \<Rightarrow> Decoder \<Rightarrow> js_error \<times> Decoder + 'a \<times> Decoder \<times> Statistics \<Rightarrow> bool" where
  "run_ok n d r =
     (case r of
        Inl (err, d') \<Rightarrow> thrown_ok n d d'
      | Inr (v, d', stats') \<Rightarrow> wf_stats n stats' \<and> returned_ok n d d')"

section \<open>Huffman decoding by a state machine (huffman.js)\<close>

definition map_get :: "('k, 'v) js_map \<Rightarrow> 'k \<Rightarrow> 'v option" where
  \<comment> \<open>\<open>m.get(k)\<close>, \<open>None\<close> for \<open>undefined\<close>; \<open>m.has(k)\<close> is \<open>map_get m k \<noteq> None\<close>\<close>
  "map_get m k = map_of m k"

definition startsWith :: "string \<Rightarrow> string \<Rightarrow> bool" where
  "startsWith s code \<longleftrightarrow> take (length code) s = code"

text \<open>
  The first loop of \<open>prepareDecoder\<close> numbers the states: the empty string is state 0,
  and every \<open>key.slice(0, i)\<close> with \<open>1 \<le> i < key.length\<close> that is not yet in
  \<open>prefixes\<close> gets the next number.
\<close>

definition addPrefix ::
  "string \<Rightarrow> (string, nat) js_map \<times> nat \<Rightarrow> (string, nat) js_map \<times> nat" where
  "addPrefix p = (\<lambda>(prefixes, stateNumber).
     if map_get prefixes p \<noteq> None then (prefixes, stateNumber)
     else (map_set prefixes p stateNumber, stateNumber + 1))"

definition numberPrefixes :: "(string, 'v) js_map \<Rightarrow> (string, nat) js_map \<times> nat" where
  "numberPrefixes table =
     fold (\<lambda>key. fold (\<lambda>i. addPrefix (take i key)) [1..<length key]) (map fst table)
       ([([], 0)], 1)"

text \<open>
  The loop labelled \<open>buildEmit\<close>: the first code of the table, in the order of its
  keys, that \<open>bitstring\<close> starts with is cut off and its symbol emitted, until no
  code matches. \<open>bitIndex\<close> is set at the first symbol only. When the empty string
  is a code, the loop consumes nothing and goes on pushing symbols; in JavaScript it ends
  when \<open>push\<close> fails on the length limit of an array (a \<open>RangeError\<close>) or the
  memory is used up. A list has no such limit, so the model has no value there
  (\<open>None\<close>): in both, \<open>prepareDecoder\<close> returns no state machine.
\<close>

partial_function (option) buildEmit ::
  "(string, 'v) js_map \<Rightarrow> int \<Rightarrow> string \<Rightarrow> 'v list \<Rightarrow> int option \<Rightarrow>
   ('v list \<times> int option \<times> string) option" where
  "buildEmit table prefixLength bitstring' emitted firstBits =
     (case find (\<lambda>(code, v). startsWith bitstring' code) table of
        None \<Rightarrow> Some (emitted, firstBits, bitstring')
      | Some (code, v) \<Rightarrow>
          buildEmit table prefixLength (drop (length code) bitstring') (emitted @ [v])
            (if emitted = [] then Some (int (length code) - prefixLength) else firstBits))"

text \<open>
  A state of the machine. The arrays \<open>emit\<close>, \<open>goto\<close> and \<open>bitIndex\<close> have 16
  slots; an empty slot and the value \<open>undefined\<close> are \<open>None\<close>. The three special
  states have no \<open>number\<close> and no \<open>prefix\<close>.
\<close>

record 'v dfa_state =
  number :: "nat option"
  prefix :: "string option"
  emit :: "'v list option list"
  goto :: "nat option list"
  bitIndex :: "int option list"

definition inputBits :: "nat \<Rightarrow> nat \<Rightarrow> string" where
  \<comment> \<open>\<open>i.toString(2).padStart(nBits, '0')\<close>\<close>
  "inputBits nBits i = padStart (toString2 (int i)) nBits (CHR ''0'')"

definition buildTransition ::
  "(string, 'v) js_map \<Rightarrow> (string, nat) js_map \<Rightarrow> string \<Rightarrow> string \<Rightarrow>
   ('v list \<times> int option \<times> nat option) option" where
  "buildTransition table prefixes p inp =
     map_option (\<lambda>(emitted, firstBits, rest). (emitted, firstBits, map_get prefixes rest))
       (buildEmit table (int (length p)) (p @ inp) [] None)"

definition fillState ::
  "nat option \<Rightarrow> string option \<Rightarrow> ('v list \<times> int option \<times> nat option) list \<Rightarrow> 'v dfa_state" where
  "fillState n p ts =
     \<lparr>number = n, prefix = p,
      emit = map (\<lambda>(emitted, firstBits, g). Some emitted) ts @ replicate (16 - length ts) None,
      goto = map (\<lambda>(emitted, firstBits, g). g) ts @ replicate (16 - length ts) None,
      bitIndex = map (\<lambda>(emitted, firstBits, g). firstBits) ts @ replicate (16 - length ts) None\<rparr>"

definition buildState ::
  "(string, 'v) js_map \<Rightarrow> (string, nat) js_map \<Rightarrow> nat \<Rightarrow> string \<Rightarrow> 'v dfa_state option" where
  "buildState table prefixes n p =
     map_option (fillState (Some n) (Some p))
       (those (map (\<lambda>i. buildTransition table prefixes p (inputBits 4 i)) [0..<16]))"

definition buildSpecialState ::
  "(string, 'v) js_map \<Rightarrow> (string, nat) js_map \<Rightarrow> nat \<Rightarrow> 'v dfa_state option" where
  "buildSpecialState table prefixes nBits =
     map_option (fillState None None)
       (those (map (\<lambda>i. buildTransition table prefixes [] (inputBits nBits i)) [0..<2 ^ nBits]))"

text \<open>
  \<open>prepareDecoder\<close>: the array \<open>states\<close> has \<open>stateNumber + 3\<close> slots;
  \<open>prefixes.forEach\<close> fills slot \<open>n\<close> for every prefix, and the last loop fills the
  slots \<open>states.length - nBits\<close> for \<open>nBits\<close> = 1, 2, 3.
\<close>

type_synonym 'v decoder = "'v dfa_state option list"

definition putState ::
  "nat \<Rightarrow> 'v dfa_state option \<Rightarrow> 'v decoder option \<Rightarrow> 'v decoder option" where
  "putState n st acc =
     (case acc of
        None \<Rightarrow> None
      | Some states' \<Rightarrow> map_option (\<lambda>s. states'[n := Some s]) st)"

definition prepareDecoder :: "(string, 'v) js_map \<Rightarrow> 'v decoder option" where
  "prepareDecoder table =
     (let (prefixes, stateNumber) = numberPrefixes table;
          states0 = Some (replicate (stateNumber + 3) None);
          states1 = fold (\<lambda>(p, n). putState n (buildState table prefixes n p)) prefixes states0
      in fold (\<lambda>nBits. putState (stateNumber + 3 - nBits) (buildSpecialState table prefixes nBits))
           [1, 2, 3] states1)"

text \<open>
  \<open>decodeBuffer\<close>. One half of the loop body: the symbols of the slot are appended to
  \<open>result\<close> and the slot of \<open>goto\<close> is read. \<open>state\<close> is \<open>None\<close> when
  \<open>decoder[goto]\<close> was \<open>undefined\<close>; reading \<open>state.emit\<close> then, or spreading an
  empty slot of \<open>emit\<close>, throws a \<open>TypeError\<close>.
\<close>

definition slotAt :: "'a option list \<Rightarrow> int \<Rightarrow> 'a option" where
  "slotAt xs i = (if 0 \<le> i \<and> nat i < length xs then xs ! nat i else None)"

definition halfByte ::
  "'v dfa_state option \<Rightarrow> int \<Rightarrow> 'v list \<Rightarrow> js_error + 'v list \<times> nat option" where
  "halfByte state v result =
     (case state of
        None \<Rightarrow> Inl (TypeError ''Cannot read properties of undefined'')
      | Some st \<Rightarrow>
          (case slotAt (emit st) v of
             None \<Rightarrow> Inl (TypeError ''Spread syntax requires ...iterable'')
           | Some symbols \<Rightarrow> Inr (result @ symbols, slotAt (goto st) v)))"

function decodeBufferLoop ::
  "byte list \<Rightarrow> nat \<Rightarrow> 'v decoder \<Rightarrow> nat \<Rightarrow> 'v list \<Rightarrow> 'v dfa_state option \<Rightarrow>
   js_error + 'v list" where
  "decodeBufferLoop buffer end' decoder position result state =
     (if position < end'
      then (let v = byteAt buffer position
            in case halfByte state (js_shr v 4) result of
                 Inl e \<Rightarrow> Inl e
               | Inr (result1, None) \<Rightarrow>
                   if position + 1 < end' then Inl (Error ''Invalid input to Huffman decoder'')
                   else Inr result1
               | Inr (result1, Some g1) \<Rightarrow>
                   (case halfByte (slotAt decoder (int g1)) (js_and v 0xF) result1 of
                      Inl e \<Rightarrow> Inl e
                    | Inr (result2, None) \<Rightarrow>
                        if position + 1 < end' then Inl (Error ''Invalid input to Huffman decoder'')
                        else Inr result2
                    | Inr (result2, Some g2) \<Rightarrow>
                        decodeBufferLoop buffer end' decoder (position + 1) result2
                          (slotAt decoder (int g2))))
      else Inr result)"
  by pat_completeness auto
termination
  by (relation "measure (\<lambda>(buffer, end', decoder, position, result, state). end' - position)") auto

declare decodeBufferLoop.simps [simp del]

definition decodeBuffer :: "byte list \<Rightarrow> nat \<Rightarrow> nat \<Rightarrow> 'v decoder \<Rightarrow> js_error + 'v list" where
  "decodeBuffer buffer start end' decoder =
     decodeBufferLoop buffer end' decoder start [] (slotAt decoder 0)"

section \<open>Naive Huffman decoding (specification)\<close>

text \<open>
  The bits of the bytes \<open>start\<close> to \<open>end - 1\<close>, most significant bit first, as a
  string of the characters 0 and 1.
\<close>

definition byteBits :: "int \<Rightarrow> string" where
  "byteBits v = map (\<lambda>k. if bit v (7 - k) then CHR ''1'' else CHR ''0'') [0..<8]"

definition bufferBits :: "byte list \<Rightarrow> nat \<Rightarrow> nat \<Rightarrow> string" where
  "bufferBits buffer start end' = concat (map (\<lambda>p. byteBits (byteAt buffer p)) [start..<end'])"

definition prefix_free :: "(string, 'v) js_map \<Rightarrow> bool" where
  "prefix_free table \<longleftrightarrow>
     list_all (\<lambda>c1. list_all (\<lambda>c2. startsWith c2 c1 \<longrightarrow> c1 = c2) (map fst table)) (map fst table)"

definition longer :: "string \<times> 'v \<Rightarrow> string \<times> 'v \<Rightarrow> string \<times> 'v" where
  "longer x best = (if length (fst best) < length (fst x) then x else best)"

definition longestMatch :: "(string, 'v) js_map \<Rightarrow> string \<Rightarrow> (string \<times> 'v) option" where
  "longestMatch table bits =
     (case filter (\<lambda>(code, v). startsWith bits code) table of
        [] \<Rightarrow> None
      | m # ms \<Rightarrow> Some (fold longer ms m))"

lemma fold_longer_in: "fold longer ms m \<in> set (m # ms)"
  by (induction ms arbitrary: m) (auto simp: longer_def)

lemma longestMatch_startsWith:
  assumes "longestMatch table bits = Some (code, v)"
  shows "(code, v) \<in> set table \<and> startsWith bits code"
proof -
  obtain m ms where f: "filter (\<lambda>(code, v). startsWith bits code) table = m # ms"
    and r: "(code, v) = fold longer ms m"
    using assms by (auto simp: longestMatch_def split: list.splits)
  have "(code, v) \<in> set (filter (\<lambda>(code, v). startsWith bits code) table)"
    unfolding f r by (rule fold_longer_in)
  then show ?thesis by auto
qed

text \<open>
  Iterated longest-prefix matching: the longest code that the bits start with is cut off
  and its symbol emitted, until no code matches; the result is the symbols and the bits
  left over. (An empty code would match without consuming a bit; the matching stops there.)
\<close>

function naive_match :: "(string, 'v) js_map \<Rightarrow> string \<Rightarrow> 'v list \<times> string" where
  "naive_match table bits =
     (case longestMatch table bits of
        None \<Rightarrow> ([], bits)
      | Some (code, v) \<Rightarrow>
          if code = [] then ([], bits)
          else (let (symbols, rest) = naive_match table (drop (length code) bits)
                in (v # symbols, rest)))"
  by pat_completeness auto
termination
proof (relation "measure (\<lambda>(table, bits). length bits)")
  show "wf (measure (\<lambda>(table, bits). length bits))" by simp
next
  fix table :: "(string, 'v) js_map" and bits :: string and x2 code v
  assume "longestMatch table bits = Some x2" and "(code, v) = x2" and "code \<noteq> []"
  then have "startsWith bits code" using longestMatch_startsWith[of table bits code v] by simp
  then have "bits \<noteq> []" using \<open>code \<noteq> []\<close> by (auto simp: startsWith_def)
  then show "((table, drop (length code) bits), (table, bits)) \<in> measure (\<lambda>(table, bits). length bits)"
    using \<open>code \<noteq> []\<close> by simp
qed

declare naive_match.simps [simp del]

definition naive_decode :: "(string, 'v) js_map \<Rightarrow> string \<Rightarrow> 'v list" where
  "naive_decode table bits = fst (naive_match table bits)"

definition is_code_prefix :: "(string, 'v) js_map \<Rightarrow> string \<Rightarrow> bool" where
  \<comment> \<open>some code of the table starts with these bits\<close>
  "is_code_prefix table bits \<longleftrightarrow> list_ex (\<lambda>(code, v). startsWith code bits) table"

definition test_table :: "(string, nat) js_map" where
  \<comment> \<open>the code map of the repository's test of \<open>decodeBuffer\<close>\<close>
  "test_table = [(''00'', 1), (''010'', 2), (''011'', 3)]"

text \<open>
  The numbering invariant of \<open>prefixes\<close> (the state numbers are 0, 1, 2, ... in
  insertion order, the keys distinct), and the prefixes \<open>key.slice(0, i)\<close> of a key.
\<close>

definition numbered :: "(string, nat) js_map \<times> nat \<Rightarrow> bool" where
  "numbered acc \<longleftrightarrow> map snd (fst acc) = [0..<snd acc] \<and> distinct (map fst (fst acc))"

definition properPrefixes :: "string \<Rightarrow> string set" where
  "properPrefixes key = (\<lambda>i. take i key) ` {1..<length key}"

text \<open>
  What the transition tables of a finished state for the prefix \<open>p\<close> hold, in terms
  of naive matching: on the four input bits \<open>i\<close> the state emits the symbols matched
  in \<open>p\<close> followed by the input and goes to the state of the bits left over.
\<close>

definition good_state ::
  "(string, 'v) js_map \<Rightarrow> (string, nat) js_map \<Rightarrow> string \<Rightarrow> 'v dfa_state \<Rightarrow> bool" where
  "good_state table ps p st \<longleftrightarrow>
     (\<forall>i<16. slotAt (emit st) (int i) = Some (fst (naive_match table (p @ inputBits 4 i))) \<and>
             slotAt (goto st) (int i) = map_get ps (snd (naive_match table (p @ inputBits 4 i))))"

definition good_decoder :: "(string, 'v) js_map \<Rightarrow> 'v decoder \<Rightarrow> bool" where
  "good_decoder table decoder \<longleftrightarrow>
     (\<forall>(p, n) \<in> set (fst (numberPrefixes table)).
        \<exists>st. slotAt decoder (int n) = Some st \<and> good_state table (fst (numberPrefixes table)) p st)"

section \<open>Scans and entropy-coded segments (jpeg.js)\<close>

text \<open>
  The fields of the \<open>JPEG\<close> object and of a scan component that the scan reader uses.
  Counts and sizes are natural numbers; where the source divides by one of them, the
  quotient of a division by zero (\<open>Infinity\<close> or \<open>NaN\<close>) is kept apart. The
  statistics and table arrays are sparse: an empty slot is \<open>None\<close>. \<open>jpg_segments\<close> is
  a history variable, not a field of the JavaScript object: when a segment reader has set
  up its local variables and is about to run its loop over the MCUs, \<open>enterSegment\<close>
  appends the DC predictors that these local variables hold and the statistics areas that
  the object holds at that moment.
\<close>

datatype grid_index = Fin nat | Infinity | NotANumber

definition floorDiv :: "nat \<Rightarrow> nat \<Rightarrow> grid_index" where
  \<comment> \<open>\<open>Math.floor(a / b)\<close>\<close>
  "floorDiv a b = (if b \<noteq> 0 then Fin (a div b) else if a = 0 then NotANumber else Infinity)"

definition remainder :: "nat \<Rightarrow> nat \<Rightarrow> grid_index" where
  \<comment> \<open>\<open>a % b\<close>\<close>
  "remainder a b = (if b \<noteq> 0 then Fin (a mod b) else NotANumber)"

definition idx_times :: "grid_index \<Rightarrow> nat \<Rightarrow> grid_index" where
  "idx_times x n =
     (case x of
        Fin a \<Rightarrow> Fin (a * n)
      | Infinity \<Rightarrow> if n = 0 then NotANumber else Infinity
      | NotANumber \<Rightarrow> NotANumber)"

definition idx_plus :: "grid_index \<Rightarrow> nat \<Rightarrow> grid_index" where
  "idx_plus x n = (case x of Fin a \<Rightarrow> Fin (a + n) | Infinity \<Rightarrow> Infinity | NotANumber \<Rightarrow> NotANumber)"

definition idx_ge :: "grid_index \<Rightarrow> nat \<Rightarrow> bool" where
  \<comment> \<open>\<open>x >= n\<close>, false for \<open>NaN\<close>\<close>
  "idx_ge x n = (case x of Fin a \<Rightarrow> n \<le> a | Infinity \<Rightarrow> True | NotANumber \<Rightarrow> False)"

record scan_component =
  comp_id :: nat
  comp_horizSampling :: nat
  comp_vertSampling :: nat
  comp_blocksPerRow :: nat
  comp_blocksPerCol :: nat
  comp_dcTable :: nat
  comp_acTable :: nat

type_synonym coefficient_block = "js_number list"

type_synonym coefficient_grid = "coefficient_block option list list"

record segment_entry =
  entry_prevDcCoeffs :: "js_number option list"
  entry_dcStats :: "Statistics option list"
  entry_acStats :: "Statistics option list"

record jpeg =
  jpg_arithmetic :: bool
  jpg_restartInterval :: nat
  jpg_totalMcus :: nat
  jpg_mcusPerRow :: nat
  jpg_dcTables :: "(int \<times> int) option list"
  jpg_acTables :: "int option list"
  jpg_dcStats :: "Statistics option list"
  jpg_acStats :: "Statistics option list"
  jpg_coefficients :: "coefficient_grid option list"
  jpg_segments :: "segment_entry list"


text \<open>
  A run of a part of the scan reader: \<open>None\<close> when it does not end, \<open>Inl\<close> with the
  error and the history when it throws.
\<close>

type_synonym 'a run = "(js_error \<times> segment_entry list + 'a) option"



text \<open>
  \<open>coeffs[rowIndex + i][colIndex + j] = block\<close> with \<open>coeffs = this.coefficients[component.id-1]\<close>.
  \<open>coeffs\<close> or \<open>coeffs[row]\<close> may be \<open>undefined\<close>, and the assignment throws then; a
  column past the end of the row extends the row, and a column that is \<open>NaN\<close> sets a
  property that is no element of the row.
\<close>

definition setSlot :: "'a option list \<Rightarrow> nat \<Rightarrow> 'a \<Rightarrow> 'a option list" where
  "setSlot xs i v =
     (if i < length xs then xs[i := Some v] else xs @ replicate (i - length xs) None @ [Some v])"

definition storeBlock ::
  "coefficient_grid option list \<Rightarrow> nat \<Rightarrow> grid_index \<Rightarrow> grid_index \<Rightarrow> coefficient_block \<Rightarrow>
   js_error + coefficient_grid option list" where
  "storeBlock cs cid row col b =
     (case slotAt cs (int cid - 1) of
        None \<Rightarrow> Inl (TypeError ''Cannot read properties of undefined'')
      | Some rows \<Rightarrow>
          (case row of
             Fin r \<Rightarrow>
               if r < length rows
               then (case col of
                       Fin c \<Rightarrow> Inr (cs[cid - 1 := Some (rows[r := setSlot (rows ! r) c b])])
                     | Infinity \<Rightarrow> Inr cs
                     | NotANumber \<Rightarrow> Inr cs)
               else Inl (TypeError ''Cannot set properties of undefined'')
           | Infinity \<Rightarrow> Inl (TypeError ''Cannot set properties of undefined'')
           | NotANumber \<Rightarrow> Inl (TypeError ''Cannot set properties of undefined'')))"





subsection \<open>readHuffmanCodedSegment\<close>

text \<open>
  The local variables of \<open>readHuffmanCodedSegment\<close>. The block reader
  \<open>readHuffmanSampleBlock\<close> is a parameter \<open>readBlock\<close> of the model, called with
  \<open>ecs\<close>, \<open>bytePos\<close>, \<open>bitPos\<close>, \<open>prevDcCoeff\<close> and the numbers of the two tables;
  it returns the new position and the block, or throws.
\<close>

record huffman_locals =
  h_bytePos :: nat
  h_bitPos :: nat
  h_prevDcCoeffs :: "js_number option list"

type_synonym block_reader =
  "byte list \<Rightarrow> nat \<Rightarrow> nat \<Rightarrow> js_number option \<Rightarrow> nat \<Rightarrow> nat \<Rightarrow>
   (js_error + nat \<times> nat \<times> coefficient_block) option"

definition firstOf :: "'a list \<Rightarrow> 'a option" where
  \<comment> \<open>\<open>block[0]\<close>\<close>
  "firstOf xs = (case xs of [] \<Rightarrow> None | x # rest \<Rightarrow> Some x)"

definition putSlot :: "'a option list \<Rightarrow> nat \<Rightarrow> 'a option \<Rightarrow> 'a option list" where
  \<comment> \<open>\<open>xs[i] = v\<close>; an index past the end extends the array\<close>
  "putSlot xs i v =
     (if i < length xs then xs[i := v] else xs @ replicate (i - length xs) None @ [v])"

text \<open>The body of the two inner loops: one block is read, and stored unless it is a dummy block.\<close>

definition huffmanBlock ::
  "block_reader \<Rightarrow> byte list \<Rightarrow> scan_component \<Rightarrow> nat \<Rightarrow> grid_index \<Rightarrow> grid_index \<Rightarrow>
   jpeg \<times> huffman_locals \<Rightarrow> (jpeg \<times> huffman_locals) run" where
  "huffmanBlock readBlock ecs c componentIndex row col = (\<lambda>(jpg, loc).
     case readBlock ecs (h_bytePos loc) (h_bitPos loc)
            (slotAt (h_prevDcCoeffs loc) (int componentIndex))
            (comp_dcTable c) (comp_acTable c) of
       None \<Rightarrow> None
     | Some (Inl e) \<Rightarrow> Some (Inl (e, jpg_segments jpg))
     | Some (Inr (bytePos', bitPos', b)) \<Rightarrow>
         (let loc' = \<lparr>h_bytePos = bytePos', h_bitPos = bitPos',
                      h_prevDcCoeffs = putSlot (h_prevDcCoeffs loc) componentIndex (firstOf b)\<rparr>
          in if idx_ge row (comp_blocksPerCol c) \<or> idx_ge col (comp_blocksPerRow c)
             then Some (Inr (jpg, loc'))
             else (case storeBlock (jpg_coefficients jpg) (comp_id c) row col b of
                     Inl e \<Rightarrow> Some (Inl (e, jpg_segments jpg))
                   | Inr cs \<Rightarrow> Some (Inr (jpg\<lparr>jpg_coefficients := cs\<rparr>, loc')))))"





subsection \<open>readArithmeticCodedSegment\<close>






subsection \<open>readBaselineScan\<close>




















text \<open>
  A small arithmetic-coded scan: one component, one MCU, restart interval 1, and a
  buffer with the scan header, an empty segment, a restart marker, another empty
  segment and the end-of-image marker. The statistics areas have been used before the
  scan: they hold other states than 0.
\<close>

definition example_component :: scan_component where
  "example_component =
     \<lparr>comp_id = 1, comp_horizSampling = 1, comp_vertSampling = 1, comp_blocksPerRow = 1,
      comp_blocksPerCol = 1, comp_dcTable = 0, comp_acTable = 0\<rparr>"

definition used_dcStats :: Statistics where
  "used_dcStats =
     \<lparr>moreProbableSymbol = True # replicate 48 False, states = 5 # replicate 48 0\<rparr>"

definition used_acStats :: Statistics where
  "used_acStats =
     \<lparr>moreProbableSymbol = False # True # replicate 243 False,
      states = 14 # 3 # replicate 243 0\<rparr>"

definition example_jpeg :: jpeg where
  "example_jpeg =
     \<lparr>jpg_arithmetic = True, jpg_restartInterval = 1, jpg_totalMcus = 1, jpg_mcusPerRow = 1,
      jpg_dcTables = [], jpg_acTables = [],
      jpg_dcStats = [Some used_dcStats], jpg_acStats = [Some used_acStats],
      jpg_coefficients = [Some [[Some (replicate 64 (Num 0))]]],
      jpg_segments = []\<rparr>"





section \<open>Raster assembly (jpeg.js)\<close>

text \<open>
  What \<open>fromBytes\<close> reads when it assembles the raster: the fields of \<open>this.frameData\<close>
  and those that \<open>handleFrameHeader\<close> derives from it. The width, the height, the sampling
  factors and the MCU sizes are natural numbers; \<open>mcusPerRow\<close> and \<open>totalMcus\<close> are
  quotients and may be \<open>Infinity\<close> or \<open>NaN\<close>. The coefficient blocks have been
  dequantized and hold numbers by now; a row may have empty slots.
\<close>

record frame_component =
  fc_id :: nat
  fc_horizSampling :: nat
  fc_vertSampling :: nat

record frame =
  frm_width :: nat
  frm_height :: nat
  frm_components :: "frame_component list"
  frm_maxHorizSampling :: nat
  frm_maxVertSampling :: nat
  frm_mcuPixelWidth :: nat
  frm_mcuPixelHeight :: nat
  frm_mcusPerRow :: grid_index
  frm_totalMcus :: grid_index
  frm_coefficients :: "number list option list list option list"

definition ceilDiv :: "nat \<Rightarrow> nat \<Rightarrow> grid_index" where
  \<comment> \<open>\<open>Math.ceil(a / b)\<close>\<close>
  "ceilDiv a b =
     (if b \<noteq> 0 then Fin ((a + b - 1) div b) else if a = 0 then NotANumber else Infinity)"

definition remBy :: "nat \<Rightarrow> grid_index \<Rightarrow> grid_index" where
  \<comment> \<open>\<open>a % c\<close>\<close>
  "remBy a c = (case c of Fin n \<Rightarrow> remainder a n | Infinity \<Rightarrow> Fin a | NotANumber \<Rightarrow> NotANumber)"

definition floorDivBy :: "nat \<Rightarrow> grid_index \<Rightarrow> grid_index" where
  \<comment> \<open>\<open>Math.floor(a / c)\<close>\<close>
  "floorDivBy a c = (case c of Fin n \<Rightarrow> floorDiv a n | Infinity \<Rightarrow> Fin 0 | NotANumber \<Rightarrow> NotANumber)"

definition idx_gt :: "grid_index \<Rightarrow> nat \<Rightarrow> bool" where
  \<comment> \<open>\<open>n < x\<close>, false for \<open>NaN\<close>\<close>
  "idx_gt x n = (case x of Fin a \<Rightarrow> n < a | Infinity \<Rightarrow> True | NotANumber \<Rightarrow> False)"

definition idx_mult :: "grid_index \<Rightarrow> grid_index \<Rightarrow> grid_index" where
  \<comment> \<open>\<open>x * y\<close>\<close>
  "idx_mult x y =
     (case (x, y) of
        (Fin a, Fin b) \<Rightarrow> Fin (a * b)
      | (Fin a, Infinity) \<Rightarrow> if a = 0 then NotANumber else Infinity
      | (Infinity, Fin b) \<Rightarrow> if b = 0 then NotANumber else Infinity
      | (Infinity, Infinity) \<Rightarrow> Infinity
      | _ \<Rightarrow> NotANumber)"

text \<open>
  The fields that \<open>handleFrameHeader\<close> derives, from the width, the height and the
  components that \<open>readFrameHeader\<close> has parsed; \<open>coefficients\<close> stands for the
  grid as it is when the raster is assembled.
\<close>

definition handleFrameHeader ::
  "nat \<Rightarrow> nat \<Rightarrow> frame_component list \<Rightarrow> number list option list list option list \<Rightarrow> frame" where
  "handleFrameHeader width height components coefficients =
     (let maxHorizSampling = fold (\<lambda>c m. max m (fc_horizSampling c)) components 0;
          maxVertSampling = fold (\<lambda>c m. max m (fc_vertSampling c)) components 0;
          mcuPixelWidth = 8 * maxHorizSampling;
          mcuPixelHeight = 8 * maxVertSampling;
          mcusPerRow = ceilDiv width mcuPixelWidth
      in \<lparr>frm_width = width, frm_height = height, frm_components = components,
          frm_maxHorizSampling = maxHorizSampling, frm_maxVertSampling = maxVertSampling,
          frm_mcuPixelWidth = mcuPixelWidth, frm_mcuPixelHeight = mcuPixelHeight,
          frm_mcusPerRow = mcusPerRow,
          frm_totalMcus = idx_mult mcusPerRow (ceilDiv height mcuPixelHeight),
          frm_coefficients = coefficients\<rparr>)"

text \<open>A loop whose body may throw: the first error ends it.\<close>

fun eachE :: "'i list \<Rightarrow> ('i \<Rightarrow> 's \<Rightarrow> js_error + 's) \<Rightarrow> 's \<Rightarrow> js_error + 's" where
  "eachE [] body s = Inr s"
| "eachE (i # rest) body s = (case body i s of Inl e \<Rightarrow> Inl e | Inr s' \<Rightarrow> eachE rest body s')"

subsection \<open>inverseDCT\<close>

text \<open>
  One term of the sum for the sample at \<open>(x, y)\<close>. A coefficient that is \<open>=== 0\<close> is
  skipped; one that is \<open>NaN\<close> or \<open>undefined\<close> makes the sample \<open>NaN\<close>.
\<close>

definition idctTerm :: "number list \<Rightarrow> nat \<Rightarrow> nat \<Rightarrow> nat \<Rightarrow> nat \<Rightarrow> number \<Rightarrow> number" where
  "idctTerm coefficients x y u v sample =
     (let cu = (if u = 0 then 1 / sqrt 2 else 1);
          cv = (if v = 0 then 1 / sqrt 2 else 1);
          coefficient = sampleAt coefficients (v * 8 + u)
      in if coefficient = Some 0 then sample
         else (case (sample, coefficient) of
                 (Some s, Some c) \<Rightarrow>
                   Some (s + cu * cv * c *
                           cos (pi * real u * (2 * real x + 1) / 16) *
                           cos (pi * real v * (2 * real y + 1) / 16))
               | _ \<Rightarrow> None))"

definition inverseDCT :: "number list \<Rightarrow> number list" where
  "inverseDCT coefficients =
     fold (\<lambda>x samples.
       fold (\<lambda>y samples.
         (let sample = fold (\<lambda>u sample. fold (\<lambda>v sample. idctTerm coefficients x y u v sample)
                                 [0..<8] sample)
                         [0..<8] (Some 0)
          in samples[y * 8 + x := map_option (\<lambda>s. s / 4) sample]))
         [0..<8] samples)
       [0..<8] (replicate 64 (Some 0))"

subsection \<open>alignSamples\<close>

text \<open>
  \<open>array[t] = v\<close> for a number \<open>t\<close>: an element is set when \<open>t\<close> is a natural number
  (the array grows when \<open>t\<close> is past its end); any other \<open>t\<close> names a property that is
  no element.
\<close>

definition setAt :: "number list \<Rightarrow> real \<Rightarrow> number \<Rightarrow> number list" where
  "setAt array t v =
     (if 0 \<le> t \<and> of_int \<lfloor>t\<rfloor> = t
      then (let k = nat \<lfloor>t\<rfloor>
            in if k < length array then array[k := v]
               else array @ replicate (k - length array) None @ [v])
      else array)"

text \<open>
  The two inner loops of \<open>alignSamples\<close> for one block: \<open>y\<close> and \<open>x\<close> count from 0
  while they are below \<open>8 * yScale\<close> and \<open>8 * xScale\<close>. The scales are quotients of
  sampling factors and need not be integers; they are reals here, without the rounding of
  doubles.
\<close>

definition alignBlock ::
  "nat \<Rightarrow> real \<Rightarrow> real \<Rightarrow> nat \<Rightarrow> nat \<Rightarrow> number list \<Rightarrow> number list \<Rightarrow> number list" where
  "alignBlock mcuPixelWidth xScale yScale blockX blockY block array =
     fold (\<lambda>y array.
       fold (\<lambda>x array.
         setAt array
           ((real y + (real blockY * 8 * yScale)) * real mcuPixelWidth +
            (real x + (real blockX * 8 * xScale)))
           (sampleAt block (nat \<lfloor>real y / yScale\<rfloor> * 8 + nat \<lfloor>real x / xScale\<rfloor>)))
         [0..<nat \<lceil>8 * xScale\<rceil>] array)
       [0..<nat \<lceil>8 * yScale\<rceil>] array"

text \<open>
  The state of the loops over the blocks of a component is the array being filled and
  \<open>blockIndex\<close>. When \<open>samples\<close> has no block at \<open>blockIndex\<close>, \<open>block\<close> is
  \<open>undefined\<close> and the first read of it throws.
\<close>

definition alignComponent ::
  "frame \<Rightarrow> number list list \<Rightarrow> frame_component \<Rightarrow> number list \<times> nat \<Rightarrow>
   js_error + number list \<times> nat" where
  "alignComponent frm samples component =
     eachE [0..<fc_vertSampling component] (\<lambda>blockY.
       eachE [0..<fc_horizSampling component] (\<lambda>blockX (array, blockIndex).
         (let xScale = real (frm_maxHorizSampling frm) / real (fc_horizSampling component);
              yScale = real (frm_maxVertSampling frm) / real (fc_vertSampling component)
          in if blockIndex < length samples
             then Inr (alignBlock (frm_mcuPixelWidth frm) xScale yScale blockX blockY
                         (samples ! blockIndex) array, blockIndex + 1)
             else if 0 < nat \<lceil>8 * yScale\<rceil> \<and> 0 < nat \<lceil>8 * xScale\<rceil>
                  then Inl (TypeError ''Cannot read properties of undefined'')
                  else Inr (array, blockIndex + 1))))"

definition alignSamples ::
  "frame \<Rightarrow> frame_component list \<Rightarrow> number list list \<Rightarrow> js_error + number list list" where
  "alignSamples frm components samples =
     (case eachE components (\<lambda>component (result, blockIndex).
             (case alignComponent frm samples component
                     (replicate (frm_mcuPixelWidth frm * frm_mcuPixelHeight frm) None, blockIndex) of
                Inl e \<Rightarrow> Inl e
              | Inr (array, blockIndex') \<Rightarrow> Inr (result @ [array], blockIndex')))
           ([], 0) of
        Inl e \<Rightarrow> Inl e
      | Inr (result, blockIndex) \<Rightarrow> Inr result)"

subsection \<open>paintPixels\<close>

text \<open>
  \<open>xEnd\<close> and \<open>yEnd\<close> are the minimum of the end of the MCU and the edge of the image.
  When \<open>xStart\<close> or \<open>yStart\<close> is \<open>NaN\<close> or \<open>Infinity\<close>, a loop bound of the painter
  is \<open>NaN\<close> or \<open>-Infinity\<close> and no pixel is painted.
\<close>

definition clipped ::
  "frame \<Rightarrow> grid_index \<Rightarrow> grid_index \<Rightarrow> raster \<Rightarrow>
   (nat \<Rightarrow> nat \<Rightarrow> nat \<Rightarrow> nat \<Rightarrow> js_error + raster) \<Rightarrow> js_error + raster" where
  "clipped frm xStart yStart raster painter =
     (case (xStart, yStart) of
        (Fin xs, Fin ys) \<Rightarrow>
          painter xs (min (xs + frm_mcuPixelWidth frm) (frm_width frm))
                  ys (min (ys + frm_mcuPixelHeight frm) (frm_height frm))
      | _ \<Rightarrow> Inr raster)"

definition paintPixels ::
  "frame \<Rightarrow> raster \<Rightarrow> number list list \<Rightarrow> frame_component list \<Rightarrow> nat \<Rightarrow> js_error + raster" where
  "paintPixels frm raster samples components mcuNumber =
     (let perRow = ceilDiv (frm_width frm) (frm_mcuPixelWidth frm);
          xStart = idx_times (remBy mcuNumber perRow) (frm_mcuPixelWidth frm);
          yStart = idx_times (floorDivBy mcuNumber perRow) (frm_mcuPixelHeight frm)
      in if length components = 3
         then (if frm_maxHorizSampling frm = 1 \<and> frm_maxVertSampling frm = 1
               then clipped frm xStart yStart raster
                      (paintYCbCrPixels (frm_width frm) raster samples 8)
               else (case alignSamples frm components samples of
                       Inl e \<Rightarrow> Inl e
                     | Inr alignedSamples \<Rightarrow>
                         clipped frm xStart yStart raster
                           (paintYCbCrPixels (frm_width frm) raster alignedSamples
                              (frm_mcuPixelWidth frm))))
         else if length components = 1
         then clipped frm xStart yStart raster
                (paintGrayscalePixels (frm_width frm) raster samples)
         else Inl (Error ''Unknown color space''))"

subsection \<open>The assembly loop of fromBytes\<close>

text \<open>
  The blocks of one MCU. \<open>coeffs\<close> is \<open>undefined\<close> when the component's id names no
  grid, and reading a row of it throws. A row or a block that is not there is replaced by
  \<open>dummyBlock\<close>, 64 zeroes.
\<close>

definition dummyBlock :: "number list" where
  "dummyBlock = replicate 64 (Some 0)"

definition rowAt :: "'a list \<Rightarrow> grid_index \<Rightarrow> 'a option" where
  \<comment> \<open>\<open>xs[i]\<close>, \<open>undefined\<close> when \<open>i\<close> is no index of \<open>xs\<close>\<close>
  "rowAt xs i = (case i of Fin k \<Rightarrow> if k < length xs then Some (xs ! k) else None | _ \<Rightarrow> None)"

definition mcuBlock ::
  "frame \<Rightarrow> frame_component \<Rightarrow> grid_index \<Rightarrow> grid_index \<Rightarrow> nat \<Rightarrow> nat \<Rightarrow>
   number list list \<Rightarrow> js_error + number list list" where
  "mcuBlock frm component mcuRow mcuCol blockRow blockCol mcu =
     (case slotAt (frm_coefficients frm) (int (fc_id component) - 1) of
        None \<Rightarrow> Inl (TypeError ''Cannot read properties of undefined'')
      | Some coeffs \<Rightarrow>
          (case rowAt coeffs (idx_plus (idx_times mcuRow (fc_vertSampling component)) blockRow) of
             None \<Rightarrow> Inr (mcu @ [dummyBlock])
           | Some row \<Rightarrow>
               (case rowAt row (idx_plus (idx_times mcuCol (fc_horizSampling component)) blockCol) of
                  Some (Some block) \<Rightarrow> Inr (mcu @ [inverseDCT block])
                | _ \<Rightarrow> Inr (mcu @ [dummyBlock]))))"

definition mcuBlocks :: "frame \<Rightarrow> nat \<Rightarrow> js_error + number list list" where
  "mcuBlocks frm mcuNumber =
     (let mcuRow = floorDivBy mcuNumber (frm_mcusPerRow frm);
          mcuCol = remBy mcuNumber (frm_mcusPerRow frm)
      in eachE (frm_components frm) (\<lambda>component.
           eachE [0..<fc_vertSampling component] (\<lambda>blockRow.
             eachE [0..<fc_horizSampling component] (\<lambda>blockCol.
               mcuBlock frm component mcuRow mcuCol blockRow blockCol)))
           [])"

text \<open>
  The loop over the MCUs runs while \<open>mcuNumber < totalMcus\<close>; with \<open>totalMcus\<close>
  infinite it ends only by an error. \<open>Buffer.alloc\<close> throws above a size limit that
  depends on the platform; the model has no such limit.
\<close>

partial_function (option) assembleLoop :: "frame \<Rightarrow> nat \<Rightarrow> raster \<Rightarrow> (js_error + raster) option" where
  "assembleLoop frm mcuNumber raster =
     (if idx_gt (frm_totalMcus frm) mcuNumber
      then (case mcuBlocks frm mcuNumber of
              Inl e \<Rightarrow> Some (Inl e)
            | Inr mcu \<Rightarrow>
                (case paintPixels frm raster mcu (frm_components frm) mcuNumber of
                   Inl e \<Rightarrow> Some (Inl e)
                 | Inr raster' \<Rightarrow> assembleLoop frm (mcuNumber + 1) raster'))
      else Some (Inr raster))"

definition assembleRaster :: "frame \<Rightarrow> (js_error + raster) option" where
  "assembleRaster frm = assembleLoop frm 0 (alloc (3 * frm_width frm * frm_height frm))"

text \<open>
  A grayscale image of 9 by 2 pixels: two MCUs of 8 by 8, both cut off at the bottom edge
  and the second also at the right edge. The grid of its component is one row of two
  blocks, and all coefficients are zero.
\<close>

definition example_frame :: frame where
  "example_frame =
     handleFrameHeader 9 2 [\<lparr>fc_id = 1, fc_horizSampling = 1, fc_vertSampling = 1\<rparr>]
       [Some [[Some (replicate 64 (Some 0)), Some (replicate 64 (Some 0))]]]"

text \<open>
  A block reader that returns one fixed block, and a state of the Huffman segment reader
  for the component of \<open>example_component\<close>, whose grid is one block wide and high.
\<close>

definition example_block :: coefficient_block where
  "example_block = Num 5 # replicate 63 (Num 0)"

definition example_reader :: block_reader where
  "example_reader = (\<lambda>ecs bytePos bitPos prevDcCoeff dcTable' acTable'.
     Some (Inr (bytePos + 1, bitPos, example_block)))"

definition example_locals :: huffman_locals where
  "example_locals = \<lparr>h_bytePos = 0, h_bitPos = 0, h_prevDcCoeffs = [Some (Num 0)]\<rparr>"

text \<open>The raster has \<open>size'\<close> bytes and every store so far was given an index below it.\<close>

definition withinSize :: "nat \<Rightarrow> raster \<Rightarrow> bool" where
  "withinSize size' raster \<longleftrightarrow>
     length (raster_bytes raster) = size' \<and> list_all (\<lambda>i. i < size') (raster_writes raster)"

definition example_huffman_jpeg :: jpeg where
  "example_huffman_jpeg = example_jpeg\<lparr>jpg_arithmetic := False\<rparr>"
section \<open>Proofs: JavaScript integer operators\<close>

lemma ToInt32_id: "- (2 ^ 31) \<le> x \<Longrightarrow> x < 2 ^ 31 \<Longrightarrow> ToInt32 x = x"
  by (simp add: ToInt32_def signed_take_bit_int_eq_self_iff)

lemma js_shl_1_small: "0 \<le> x \<Longrightarrow> x < 2 ^ 30 \<Longrightarrow> js_shl x 1 = 2 * x"
  by (simp add: js_shl_def ToInt32_id)




lemma js_shr_small: "0 \<le> x \<Longrightarrow> x < 2 ^ 31 \<Longrightarrow> 0 \<le> k \<Longrightarrow> k < 32 \<Longrightarrow> js_shr x k = x div 2 ^ nat k"
  by (simp add: js_shr_def ToInt32_id drop_bit_int_def)

lemma js_shl_1: "0 \<le> k \<Longrightarrow> k < 31 \<Longrightarrow> js_shl 1 k = 2 ^ nat k"
proof -
  assume k: "0 \<le> k" "k < 31"
  have "(2::int) ^ nat k < 2 ^ 31" using k by (intro power_strict_increasing) auto
  moreover have "- (2 ^ 31) \<le> (2::int) ^ nat k" by (smt (verit) zero_le_power)
  ultimately show ?thesis using k
    by (simp add: js_shl_def ToInt32_id push_bit_eq_mult)
qed

lemma js_and_mask:
  assumes "0 \<le> x" "x < 2 ^ 31" "k \<le> 30"
  shows "js_and x (2 ^ k - 1) = x mod 2 ^ k"
proof -
  have p: "(0::int) < 2 ^ k" by simp
  have "(2::int) ^ k \<le> 2 ^ 30" using assms by (intro power_increasing) auto
  then have q: "(2::int) ^ k \<le> 1073741824" by simp
  have "- 2147483648 \<le> (2::int) ^ k - 1" "(2::int) ^ k - 1 < 2147483648"
    using p q by linarith+
  then have m: "ToInt32 (2 ^ k - 1) = 2 ^ k - 1"
    by (intro ToInt32_id) simp_all
  have "x AND (2 ^ k - 1) = take_bit k x"
    by (simp add: take_bit_eq_mask mask_eq_exp_minus_1)
  then show ?thesis using assms m
    by (simp add: js_and_def ToInt32_id take_bit_int_def)
qed

lemma bit_small_int: "0 \<le> y \<Longrightarrow> y < 2 ^ k \<Longrightarrow> bit (y::int) n \<Longrightarrow> n < k"
proof -
  assume a: "0 \<le> y" "y < 2 ^ k" "bit y n"
  then have "take_bit k y = y" by (simp add: take_bit_int_def)
  then have "bit (take_bit k y) n" using a by simp
  then show ?thesis by (simp add: bit_take_bit_iff)
qed

lemma js_or_shl:
  assumes "0 \<le> k" "k < 32" "0 \<le> y" "y < 2 ^ nat k"
  shows "js_or (js_shl (ToInt32 v) k) y = ToInt32 (2 ^ nat k * v + y)"
proof -
  let ?K = "nat k"
  have K: "?K \<le> 31" using assms by simp
  have dis: "push_bit ?K v + y = push_bit ?K v OR y"
  proof (rule disjunctive_add)
    fix n show "\<not> bit (push_bit ?K v) n \<or> \<not> bit y n"
      using bit_small_int[OF assms(3,4), of n] by (auto simp: bit_push_bit_iff_int)
  qed
  have "2 ^ ?K * v + y = push_bit ?K v OR y"
    using dis by (simp add: push_bit_eq_mult mult.commute)
  moreover have "signed_take_bit 31 (signed_take_bit 31 (push_bit ?K (signed_take_bit 31 (signed_take_bit 31 v))))
         OR signed_take_bit 31 y = signed_take_bit 31 (push_bit ?K v OR y)"
  proof (rule bit_eqI)
    fix n
    have "min 31 (min 31 n - ?K) = min 31 n - ?K" by simp
    then show "bit (signed_take_bit 31 (signed_take_bit 31 (push_bit ?K (signed_take_bit 31 (signed_take_bit 31 v))))
         OR signed_take_bit 31 y) n = bit (signed_take_bit 31 (push_bit ?K v OR y)) n"
      by (simp add: bit_or_iff bit_signed_take_bit_iff bit_push_bit_iff_int)
  qed
  ultimately show ?thesis
    using assms by (simp add: js_or_def js_shl_def ToInt32_def)
qed

declare binaryDigits.simps [simp del]

lemma map_set_fresh: "k \<notin> fst ` set m \<Longrightarrow> map_set m k v = m @ [(k, v)]"
  by (induction m) auto

lemma toString2_nat: "toString2 (int c) = binaryDigits c"
  by (simp add: toString2_def)

lemma binaryDigits_small: "n < 2 \<Longrightarrow> binaryDigits n = [if n = 0 then CHR ''0'' else CHR ''1'']"
  by (subst binaryDigits.simps) simp

lemma binaryDigits_big:
  "\<not> n < 2 \<Longrightarrow>
   binaryDigits n = binaryDigits (n div 2) @ [if n mod 2 = 0 then CHR ''0'' else CHR ''1'']"
  by (subst binaryDigits.simps) simp

lemma byteAt_range: "0 \<le> byteAt B i \<and> byteAt B i < 256"
proof -
  have "uint (B ! i) < 2 ^ 8" using uint_bounded[of "B ! i"] by simp
  then show ?thesis by (simp add: byteAt_def)
qed

section \<open>Proofs: zig-zag order and dequantization\<close>

lemma zigzagSequence_standard: "zigzagSequence = standard_zigzag"
  by (simp add: zigzagSequence_def standard_zigzag_def zigzag_diagonal_def upt_rec Let_def)

lemma zigzagSequence_distinct: "distinct zigzagSequence"
  by (simp add: zigzagSequence_def)

lemma zigzagSequence_length: "length zigzagSequence = 64"
  by (simp add: zigzagSequence_def)

lemma zigzagSequence_bound: "\<forall>x\<in>set zigzagSequence. x < 64"
  by (simp add: zigzagSequence_def)

lemma zigzagLoop_length: "length (zigzagLoop c is p) = length p"
  by (induction "is" arbitrary: p) auto

lemma zigzagLoop_other:
  "j \<notin> (\<lambda>i. zigzagSequence ! i) ` set is \<Longrightarrow> zigzagLoop c is p ! j = p ! j"
  by (induction "is" arbitrary: p) auto

lemma zigzagLoop_written:
  "distinct (map (\<lambda>i. zigzagSequence ! i) is) \<Longrightarrow> k \<in> set is \<Longrightarrow>
   zigzagSequence ! k < length p \<Longrightarrow>
   zigzagLoop c is p ! (zigzagSequence ! k) = Some (c ! k)"
proof (induction "is" arbitrary: p)
  case Nil
  then show ?case by simp
next
  case (Cons i "is")
  show ?case
  proof (cases "k = i")
    case True
    with Cons.prems show ?thesis by (simp add: zigzagLoop_other)
  next
    case False
    with Cons show ?thesis by simp
  qed
qed

lemma zigzagSequence_map_nth: "map (\<lambda>i. zigzagSequence ! i) [0..<64] = zigzagSequence"
  using map_nth[of zigzagSequence] by (simp add: zigzagSequence_length)

lemma zigzagSequence_set: "set zigzagSequence = {0..<64}"
proof -
  have "card (set zigzagSequence) = 64"
    using zigzagSequence_distinct zigzagSequence_length by (simp add: distinct_card)
  moreover have "set zigzagSequence \<subseteq> {0..<64}"
    using zigzagSequence_bound by auto
  ultimately show ?thesis by (simp add: card_subset_eq)
qed

lemma bitLength_le: "m < 2 ^ k \<Longrightarrow> bitLength m \<le> k"
proof (induction k arbitrary: m)
  case 0
  then show ?case by (simp add: bitLength.simps)
next
  case (Suc k)
  from Suc.prems have "m div 2 < 2 ^ k" by auto
  then have "bitLength (m div 2) \<le> k" by (rule Suc.IH)
  then show ?case by (subst bitLength.simps) simp
qed

lemma roundToDouble_exact:
  assumes "\<bar>x\<bar> < 2 ^ 53"
  shows "roundToDouble x = x"
proof -
  have "nat \<bar>x\<bar> < 2 ^ 53" using assms by (simp add: nat_less_iff)
  then have "bitLength (nat \<bar>x\<bar>) - 53 = 0" using bitLength_le[of "nat \<bar>x\<bar>" 53] by simp
  then show ?thesis by (simp add: roundToDouble_def Let_def mult_sgn_abs)
qed

lemma js_times_exact:
  assumes "\<bar>a * b\<bar> < 2 ^ 53"
  shows "js_times a b = Num (a * b)"
proof -
  have "(2::int) ^ 53 \<le> 2 ^ 1024" by (rule power_increasing) simp_all
  then have "\<not> 2 ^ 1024 \<le> a * b" "\<not> a * b \<le> - (2 ^ 1024)" using assms by linarith+
  then show ?thesis using assms by (simp add: js_times_def roundToDouble_exact Let_def)
qed

lemma bitLength_numeral:
  "bitLength (numeral n) = Suc (bitLength (numeral n div 2))"
  by (subst bitLength.simps) simp

lemma js_times_rounds: "js_times 94906267 94906267 = Num 9007199515875288"
proof -
  have b: "bitLength 9007199515875289 = 54"
    by (simp add: bitLength_numeral) (simp add: bitLength.simps)
  show ?thesis
    by (simp add: js_times_def roundToDouble_def Let_def b)
qed

text \<open>
  Claim C6. For 64 coefficients \<open>c\<close> and a 64-entry quantization table \<open>q\<close>, both in
  zig-zag order, dequantizing and then undoing the zig-zag order succeeds with a block
  \<open>r\<close> of 64 filled slots such that \<open>r[zigzagSequence[k]] = c[k] * q[k]\<close> for every
  \<open>k < 64\<close>: the product as JavaScript computes it (\<open>js_times\<close>), which is the
  exact product of the two integers whenever that is below \<open>2 ^ 53\<close> in absolute
  value. The table
  \<open>zigzagSequence\<close> is the standard zig-zag scan: it equals the anti-diagonal traversal,
  starts 0, 1, 8, 16, 9, 2 and is a permutation of 0..63.
\<close>

theorem C6_dequantize_inverse_zigzag:
  assumes "length c = 64" and "length q = 64"
  shows "\<exists>r. inverseZigzagOrder (dequantizeCoefficients c q) = Inr r \<and> length r = 64 \<and>
           (\<forall>k<64. r ! (zigzagSequence ! k) = Some (js_times (c ! k) (q ! k)) \<and>
                    (\<bar>c ! k * q ! k\<bar> < 2 ^ 53 \<longrightarrow>
                       r ! (zigzagSequence ! k) = Some (Num (c ! k * q ! k)))) \<and>
           zigzagSequence = standard_zigzag \<and>
           take 6 zigzagSequence = [0, 1, 8, 16, 9, 2] \<and>
           distinct zigzagSequence \<and> set zigzagSequence = {0..<64}"
proof -
  let ?d = "dequantizeCoefficients c q"
  have ld: "length ?d = 64"
    using assms by (simp add: dequantizeCoefficients_def)
  have dk: "?d ! k = js_times (c ! k) (q ! k)" if "k < 64" for k
    using that assms by (simp add: dequantizeCoefficients_def)
  let ?r = "zigzagLoop ?d [0..<64] (replicate 64 None)"
  have 1: "inverseZigzagOrder ?d = Inr ?r"
    using ld by (simp add: inverseZigzagOrder_def)
  have 2: "length ?r = 64"
    by (simp add: zigzagLoop_length)
  have 3: "?r ! (zigzagSequence ! k) = Some (js_times (c ! k) (q ! k))" if "k < 64" for k
  proof -
    have "zigzagSequence ! k < 64"
      using that zigzagSequence_bound zigzagSequence_length by (metis nth_mem)
    then have "?r ! (zigzagSequence ! k) = Some (?d ! k)"
      using that
      by (intro zigzagLoop_written) (simp_all add: zigzagSequence_map_nth zigzagSequence_distinct)
    then show ?thesis
      using dk[OF that] by simp
  qed
  have 4: "take 6 zigzagSequence = [0, 1, 8, 16, 9, 2]"
    by (simp add: zigzagSequence_def)
  have 5: "\<forall>k<64. ?r ! (zigzagSequence ! k) = Some (js_times (c ! k) (q ! k)) \<and>
                    (\<bar>c ! k * q ! k\<bar> < 2 ^ 53 \<longrightarrow>
                       ?r ! (zigzagSequence ! k) = Some (Num (c ! k * q ! k)))"
    using 3 js_times_exact by simp
  show ?thesis
    using 1 2 5 4 zigzagSequence_set zigzagSequence_standard zigzagSequence_distinct by blast
qed

theorem C6_witness:
  "length (map int [0..<64]) = 64 \<and> length (replicate 64 (2::int)) = 64 \<and>
   list_all (\<lambda>k. \<bar>map int [0..<64] ! k * replicate 64 (2::int) ! k\<bar> < 2 ^ 53) [0..<64] \<and>
   (\<exists>r. inverseZigzagOrder (dequantizeCoefficients (map int [0..<64]) (replicate 64 2)) = Inr r \<and>
        r ! 8 = Some (Num 4) \<and> r ! 16 = Some (Num 6))"
proof -
  have l: "length (map int [0..<64]) = 64" "length (replicate 64 (2::int)) = 64"
    by simp_all
  have b: "list_all (\<lambda>k. \<bar>map int [0..<64] ! k * replicate 64 (2::int) ! k\<bar> < 2 ^ 53) [0..<64]"
    by (simp add: list_all_iff)
  from C6_dequantize_inverse_zigzag[OF l] obtain r where
    r: "inverseZigzagOrder (dequantizeCoefficients (map int [0..<64]) (replicate 64 2)) = Inr r"
    and k: "\<forall>k<64. \<bar>map int [0..<64] ! k * replicate 64 (2::int) ! k\<bar> < 2 ^ 53 \<longrightarrow>
              r ! (zigzagSequence ! k) =
              Some (Num (map int [0..<64] ! k * replicate 64 (2::int) ! k))"
    by blast
  have "r ! (zigzagSequence ! 2) = Some (Num 4)" "r ! (zigzagSequence ! 3) = Some (Num 6)"
    using k by simp_all
  then have "r ! 8 = Some (Num 4)" "r ! 16 = Some (Num 6)"
    by (simp_all add: zigzagSequence_def)
  with r l b show ?thesis by blast
qed
section \<open>Proofs: the probability state table\<close>

lemma stateTable_T81: "stateTable = T81_Table_D3"
  by (simp add: stateTable_def T81_Table_D3_def T81_Qe_Value_def T81_Next_Index_LPS_def
      T81_Next_Index_MPS_def T81_Switch_MPS_def upt_rec)

lemma stateTable_length: "length stateTable = 113"
  by (simp add: stateTable_def)

lemma ArithmeticCoder_stateTable_row45:
  "ArithmeticCoder_stateTable = stateTable[45 := (stateTable ! 45)\<lparr>probability := 0x0E78\<rparr>]"
  by (simp add: ArithmeticCoder_stateTable_def stateTable_def)

text \<open>
  Claim C4. The table \<open>stateTable\<close> that \<open>Decoder.decodeBit\<close> indexes has 113 rows
  and equals ITU-T T.81 Table D.3 row by row; its row 45 has \<open>Qe = 0x0E74\<close>. The
  other table of the source, \<open>ArithmeticCoder.stateTable\<close>, which
  \<open>ArithmeticDecoder.decodeDecision\<close> indexes, also has 113 rows but differs from the
  standard in row 45, where its probability is \<open>0x0E78\<close>.
\<close>

theorem C4_state_tables:
  "length stateTable = 113 \<and> stateTable = T81_Table_D3 \<and>
   probability (stateTable ! 45) = 0x0E74 \<and>
   length ArithmeticCoder_stateTable = 113 \<and>
   ArithmeticCoder_stateTable = stateTable[45 := (stateTable ! 45)\<lparr>probability := 0x0E78\<rparr>] \<and>
   probability (ArithmeticCoder_stateTable ! 45) = 0x0E78 \<and>
   probability (T81_Table_D3 ! 45) = 0x0E74 \<and>
   ArithmeticCoder_stateTable \<noteq> T81_Table_D3"
proof -
  have 1: "probability (stateTable ! 45) = 0x0E74"
    by (simp add: stateTable_def)
  have 2: "probability (ArithmeticCoder_stateTable ! 45) = 0x0E78"
    by (simp add: ArithmeticCoder_stateTable_def)
  have 3: "length ArithmeticCoder_stateTable = 113"
    by (simp add: ArithmeticCoder_stateTable_def)
  have 4: "ArithmeticCoder_stateTable \<noteq> T81_Table_D3"
    using 1 2 stateTable_T81 by auto
  show ?thesis
    using 1 2 3 4 stateTable_length stateTable_T81 ArithmeticCoder_stateTable_row45 by simp
qed

section \<open>Proofs: canonical Huffman codes\<close>

lemma length_binaryDigits: "n < 2 ^ len \<Longrightarrow> 0 < len \<Longrightarrow> length (binaryDigits n) \<le> len"
proof (induction n arbitrary: len rule: binaryDigits.induct)
  case (1 n)
  show ?case
  proof (cases "n < 2")
    case True
    then show ?thesis using "1.prems" by (subst binaryDigits.simps) simp
  next
    case False
    then obtain l where l: "len = Suc l" using "1.prems" by (cases len) auto
    have "l > 0" using False "1.prems" l by (cases l) auto
    moreover have "n div 2 < 2 ^ l" using "1.prems" l by auto
    ultimately have "length (binaryDigits (n div 2)) \<le> l" using "1.IH"[OF False] by blast
    then show ?thesis using False l by (subst binaryDigits.simps) simp
  qed
qed

lemma bitstring_Suc:
  "bitstring (Suc len) n = bitstring len (n div 2) @ [if n mod 2 = 0 then CHR ''0'' else CHR ''1'']"
proof -
  have "bit n (len - i) = bit (n div 2) (len - 1 - i)" if "i < len" for i
  proof -
    have "len - i = Suc (len - 1 - i)" using that by simp
    then show ?thesis by (simp add: bit_Suc)
  qed
  then have "map (\<lambda>i. if bit n (len - i) then CHR ''1'' else CHR ''0'') [0..<len] =
             map (\<lambda>i. if bit (n div 2) (len - 1 - i) then CHR ''1'' else CHR ''0'') [0..<len]"
    by (intro map_cong) auto
  then show ?thesis
    by (simp add: bitstring_def bit_0 even_iff_mod_2_eq_zero)
qed

lemma bitstring_zero: "bitstring len 0 = replicate len (CHR ''0'')"
  by (simp add: bitstring_def map_replicate_const)

lemma padStart_binaryDigits:
  "n < 2 ^ len \<Longrightarrow> 0 < len \<Longrightarrow> padStart (binaryDigits n) len (CHR ''0'') = bitstring len n"
proof (induction n arbitrary: len rule: binaryDigits.induct)
  case (1 n)
  obtain l where l: "len = Suc l" using "1.prems" by (cases len) auto
  show ?case
  proof (cases "n < 2")
    case True
    then have "n div 2 = 0" by simp
    then show ?thesis using True l
      by (subst binaryDigits.simps) (auto simp: padStart_def bitstring_Suc bitstring_zero)
  next
    case False
    have lpos: "l > 0" using False "1.prems" l by (cases l) auto
    have lt: "n div 2 < 2 ^ l" using "1.prems" l by auto
    have IH: "padStart (binaryDigits (n div 2)) l (CHR ''0'') = bitstring l (n div 2)"
      using "1.IH"[OF False lt lpos] .
    have len: "length (binaryDigits (n div 2)) \<le> l" using length_binaryDigits[OF lt lpos] .
    have "padStart (binaryDigits n) len (CHR ''0'') =
          padStart (binaryDigits (n div 2)) l (CHR ''0'') @ [if n mod 2 = 0 then CHR ''0'' else CHR ''1'']"
      using False l len by (subst binaryDigits.simps) (simp add: padStart_def Suc_diff_le)
    then show ?thesis using IH l by (simp add: bitstring_Suc)
  qed
qed

lemma length_bitstring [simp]: "length (bitstring len n) = len"
  by (simp add: bitstring_def)

lemma bitstring_inj: "a < 2 ^ len \<Longrightarrow> b < 2 ^ len \<Longrightarrow> bitstring len a = bitstring len b \<Longrightarrow> a = b"
proof (induction len arbitrary: a b)
  case 0
  then show ?case by simp
next
  case (Suc len)
  from Suc.prems(3) have "bitstring len (a div 2) = bitstring len (b div 2)" "a mod 2 = b mod 2"
    by (auto simp: bitstring_Suc split: if_splits)
  moreover have "a div 2 < 2 ^ len" "b div 2 < 2 ^ len" using Suc.prems by auto
  ultimately have "a div 2 = b div 2" using Suc.IH by blast
  with \<open>a mod 2 = b mod 2\<close> show ?case by (metis div_mult_mod_eq)
qed

text \<open>keys written so far: shorter than len, or one of the len-bit codes below c\<close>

lemma codesOfLength_canonical:
  "c + n \<le> 2 ^ len \<Longrightarrow> 0 < len \<Longrightarrow> nvi + n \<le> length buffer \<Longrightarrow> keys_below cs len c \<Longrightarrow>
   codesOfLength buffer len n (cs, int c, nvi) =
     (cs @ zip (map (bitstring len) [c..<c + n]) (map Some (take n (drop nvi buffer))),
      int (c + n), nvi + n)"
proof (induction n arbitrary: cs c nvi)
  case 0
  then show ?case by simp
next
  case (Suc n)
  have c: "c < 2 ^ len" using Suc.prems by simp
  have key: "padStart (toString2 (int c)) len (CHR ''0'') = bitstring len c"
    using c Suc.prems by (simp add: toString2_nat padStart_binaryDigits)
  have fresh: "bitstring len c \<notin> fst ` set cs"
  proof
    assume "bitstring len c \<in> fst ` set cs"
    with Suc.prems(4) have "length (bitstring len c) < len \<or> (\<exists>c'<c. bitstring len c = bitstring len c')"
      unfolding keys_below_def by blast
    then obtain c' where "c' < c" "bitstring len c = bitstring len c'" by auto
    with c show False using bitstring_inj[of c len c'] by auto
  qed
  have nvi: "nvi < length buffer" using Suc.prems by simp
  let ?cs = "cs @ [(bitstring len c, Some (buffer ! nvi))]"
  have kb: "keys_below ?cs len (Suc c)"
    using Suc.prems(4) unfolding keys_below_def by (auto simp: less_Suc_eq)
  have step: "codesOfLength buffer len (Suc n) (cs, int c, nvi) =
              codesOfLength buffer len n (?cs, int (Suc c), Suc nvi)"
    using key nvi fresh by (simp add: map_set_fresh add.commute)
  have IH: "codesOfLength buffer len n (?cs, int (Suc c), Suc nvi) =
     (?cs @ zip (map (bitstring len) [Suc c..<Suc c + n]) (map Some (take n (drop (Suc nvi) buffer))),
      int (Suc c + n), Suc nvi + n)"
    using Suc.prems by (intro Suc.IH kb) auto
  have dr: "take (Suc n) (drop nvi buffer) = buffer ! nvi # take n (drop (Suc nvi) buffer)"
    using nvi by (simp add: Cons_nth_drop_Suc[symmetric])
  have up: "[c..<c + Suc n] = c # [Suc c..<Suc c + n]"
    by (simp add: upt_rec)
  show ?case
    unfolding step IH dr up by simp
qed

lemma codeLengthLoop_canonical:
  "0 < len \<Longrightarrow> len + m \<le> 17 \<Longrightarrow> index + len + m \<le> length buffer \<Longrightarrow>
   fits_code_space len c (countsAt buffer index [len..<len + m]) \<Longrightarrow>
   nvi + sum_list (countsAt buffer index [len..<len + m]) \<le> length buffer \<Longrightarrow>
   \<forall>k\<in>fst ` set cs. length k < len \<Longrightarrow>
   \<exists>nc. codeLengthLoop buffer index [len..<len + m] (cs, int c, nvi) =
     (cs @ map (\<lambda>(k, s). (k, Some s))
             (canonical_codes len c (countsAt buffer index [len..<len + m]) (drop nvi buffer)),
      nc, nvi + sum_list (countsAt buffer index [len..<len + m]))"
proof (induction m arbitrary: len c nvi cs)
  case 0
  then show ?case by (simp add: countsAt_def)
next
  case (Suc m)
  let ?L = "unat (buffer ! (index + len))"
  have up: "[len..<len + Suc m] = len # [Suc len..<Suc len + m]"
    by (simp add: upt_rec)
  have cnt: "countsAt buffer index [len..<len + Suc m] = ?L # countsAt buffer index [Suc len..<Suc len + m]"
    unfolding countsAt_def up by (simp only: list.map)
  have inb: "index + len < length buffer" using Suc.prems by simp
  have fit: "c + ?L \<le> 2 ^ len" "fits_code_space (Suc len) (2 * (c + ?L)) (countsAt buffer index [Suc len..<Suc len + m])"
    using Suc.prems(4) unfolding cnt by simp_all
  have sum: "nvi + ?L + sum_list (countsAt buffer index [Suc len..<Suc len + m]) \<le> length buffer"
    using Suc.prems(5) unfolding cnt by simp
  have kb: "keys_below cs len c" using Suc.prems(6) by (auto simp: keys_below_def)
  let ?new = "zip (map (bitstring len) [c..<c + ?L]) (map Some (take ?L (drop nvi buffer)))"
  have col: "codesOfLength buffer len ?L (cs, int c, nvi) = (cs @ ?new, int (c + ?L), nvi + ?L)"
    using fit(1) Suc.prems(1) sum kb by (intro codesOfLength_canonical) auto
  have "(2::nat) ^ len \<le> 2 ^ 16" using Suc.prems(2) by (intro power_increasing) auto
  then have "c + ?L < 2 ^ 30" using fit(1) by simp
  then have small: "int (c + ?L) < 2 ^ 30" by (metis of_nat_less_iff of_nat_numeral of_nat_power)
  have shl: "js_shl (int (c + ?L)) 1 = int (2 * (c + ?L))"
    using small by (simp add: js_shl_1_small)
  have keys: "\<forall>k\<in>fst ` set (cs @ ?new). length k < Suc len"
  proof
    fix k assume "k \<in> fst ` set (cs @ ?new)"
    then consider "k \<in> fst ` set cs" | "k \<in> fst ` set ?new" by auto
    then show "length k < Suc len"
    proof cases
      case 1
      then show ?thesis using Suc.prems(6) by auto
    next
      case 2
      then have "k \<in> set (map (bitstring len) [c..<c + ?L])"
        by (auto dest: set_zip_leftD)
      then show ?thesis by auto
    qed
  qed
  obtain nc where IH: "codeLengthLoop buffer index [Suc len..<Suc len + m] (cs @ ?new, int (2 * (c + ?L)), nvi + ?L) =
     ((cs @ ?new) @ map (\<lambda>(k, s). (k, Some s))
             (canonical_codes (Suc len) (2 * (c + ?L)) (countsAt buffer index [Suc len..<Suc len + m]) (drop (nvi + ?L) buffer)),
      nc, nvi + ?L + sum_list (countsAt buffer index [Suc len..<Suc len + m]))"
    using Suc.IH[of "Suc len" "2 * (c + ?L)" "nvi + ?L" "cs @ ?new"] Suc.prems(2,3) fit(2) sum keys
    by auto
  have zipmap: "?new = map (\<lambda>(k, s). (k, Some s)) (zip (map (bitstring len) [c..<c + ?L]) (take ?L (drop nvi buffer)))"
    by (simp add: zip_map2 case_prod_unfold)
  have "codeLengthLoop buffer index [len..<len + Suc m] (cs, int c, nvi) =
        codeLengthLoop buffer index [Suc len..<Suc len + m] (cs @ ?new, int (2 * (c + ?L)), nvi + ?L)"
    unfolding up using inb col shl by (simp add: nCodesAt_def del: codesOfLength.simps)
  also note IH
  finally show ?case
    unfolding cnt by (auto simp: zipmap add.commute add.assoc drop_drop)
qed

lemma codesOfLength_numeral:
  "codesOfLength buffer codeLen (numeral k) (cs, nextCode, nextValueIndex) =
     codesOfLength buffer codeLen (pred_numeral k)
       (map_set cs (padStart (toString2 nextCode) codeLen (CHR ''0''))
          (if nextValueIndex < length buffer then Some (buffer ! nextValueIndex) else None),
        nextCode + 1, nextValueIndex + 1)"
  by (simp add: numeral_eq_Suc)

lemmas readHuffmanTable_eval =
  readHuffmanTable_def upt_rec codesOfLength_numeral nCodesAt_def padStart_def toString2_def
  binaryDigits_small binaryDigits_big js_shl_def ToInt32_def

lemma K33_codes:
  "codes (readHuffmanTable K33_payload 0) =
     [(''00'', Some 0), (''010'', Some 1), (''011'', Some 2), (''100'', Some 3), (''101'', Some 4),
      (''110'', Some 5), (''1110'', Some 6), (''11110'', Some 7), (''111110'', Some 8),
      (''1111110'', Some 9), (''11111110'', Some 10), (''111111110'', Some 11)]"
  by (simp add: K33_payload_def readHuffmanTable_eval)

text \<open>
  Claim C3, amended. For a table whose 16 length counts \<open>L\<^sub>1, \<dots>, L\<^sub>1\<^sub>6\<close> and symbol
  list lie inside the buffer and whose counts do not over-subscribe the code space (at
  every length \<open>len\<close>, \<open>nextCode + L\<^sub>l\<^sub>e\<^sub>n \<le> 2 ^ len\<close>), \<open>readHuffmanTable\<close>
  produces exactly the canonical code map: \<open>nextCode\<close> starts at 0, each length assigns
  its symbols the next codes as \<open>len\<close>-bit strings, and then
  \<open>nextCode = (nextCode + L) << 1\<close>; the table ends after the last symbol. The payload of
  the specification's scenario 1 yields the twelve listed pairs.
\<close>

theorem C3_readHuffmanTable_canonical:
  assumes "index + 17 + sum_list (countsAt buffer index [1..<17]) \<le> length buffer"
      and "fits_code_space 1 0 (countsAt buffer index [1..<17])"
  shows "codes (readHuffmanTable buffer index) =
           map (\<lambda>(k, s). (k, Some s))
             (canonical_codes 1 0 (countsAt buffer index [1..<17]) (drop (index + 17) buffer)) \<and>
         table_end (readHuffmanTable buffer index) =
           index + 17 + sum_list (countsAt buffer index [1..<17]) \<and>
         codes (readHuffmanTable K33_payload 0) =
           [(''00'', Some 0), (''010'', Some 1), (''011'', Some 2), (''100'', Some 3),
            (''101'', Some 4), (''110'', Some 5), (''1110'', Some 6), (''11110'', Some 7),
            (''111110'', Some 8), (''1111110'', Some 9), (''11111110'', Some 10),
            (''111111110'', Some 11)]"
proof -
  have "\<exists>nc. codeLengthLoop buffer index [1..<1 + 16] ([], int 0, index + 17) =
     ([] @ map (\<lambda>(k, s). (k, Some s))
             (canonical_codes 1 0 (countsAt buffer index [1..<1 + 16]) (drop (index + 17) buffer)),
      nc, (index + 17) + sum_list (countsAt buffer index [1..<1 + 16]))"
    using assms by (intro codeLengthLoop_canonical) auto
  then obtain nc where "codeLengthLoop buffer index [1..<17] ([], 0, index + 17) =
     (map (\<lambda>(k, s). (k, Some s))
             (canonical_codes 1 0 (countsAt buffer index [1..<17]) (drop (index + 17) buffer)),
      nc, index + 17 + sum_list (countsAt buffer index [1..<17]))"
    by auto
  then show ?thesis
    using K33_codes by (simp add: readHuffmanTable_def)
qed

theorem C3_witness:
  "0 + 17 + sum_list (countsAt K33_payload 0 [1..<17]) \<le> length K33_payload \<and>
   fits_code_space 1 0 (countsAt K33_payload 0 [1..<17]) \<and>
   codes (readHuffmanTable K33_payload 0) =
     map (\<lambda>(k, s). (k, Some s))
       (canonical_codes 1 0 (countsAt K33_payload 0 [1..<17]) (drop (0 + 17) K33_payload)) \<and>
   table_end (readHuffmanTable K33_payload 0) = 29"
proof -
  have c: "countsAt K33_payload 0 [1..<17] = [0, 1, 5, 1, 1, 1, 1, 1, 1, 0, 0, 0, 0, 0, 0, 0]"
    by (simp add: countsAt_def K33_payload_def upt_rec)
  have h1: "0 + 17 + sum_list (countsAt K33_payload 0 [1..<17]) \<le> length K33_payload"
    unfolding c by (simp add: K33_payload_def)
  have h2: "fits_code_space 1 0 (countsAt K33_payload 0 [1..<17])"
    unfolding c by simp
  show ?thesis
    using C3_readHuffmanTable_canonical[OF h1 h2] h1 h2 unfolding c by simp
qed

text \<open>
  The claim as stated fails for counts that over-subscribe the code space: with three
  codes of length 1 the third code is the two-character string 10, where the canonical
  construction with one-bit codes would repeat the code 0.
\<close>

theorem C3_oversubscribed_counterexample:
  "codes (readHuffmanTable oversubscribed_payload 0) =
     [(''0'', Some 7), (''1'', Some 8), (''10'', Some 9)] \<and>
   map (\<lambda>(k, s). (k, Some s))
     (canonical_codes 1 0 (countsAt oversubscribed_payload 0 [1..<17])
        (drop 17 oversubscribed_payload)) =
     [(''0'', Some 7), (''1'', Some 8), (''0'', Some 9)]"
proof -
  have c: "countsAt oversubscribed_payload 0 [1..<17] =
             [3, 0, 0, 0, 0, 0, 0, 0, 0, 0, 0, 0, 0, 0, 0, 0]"
    by (simp add: countsAt_def oversubscribed_payload_def upt_rec)
  have 1: "codes (readHuffmanTable oversubscribed_payload 0) =
             [(''0'', Some 7), (''1'', Some 8), (''10'', Some 9)]"
    by (simp add: oversubscribed_payload_def readHuffmanTable_eval)
  have 2: "canonical_codes 1 0 [3, 0, 0, 0, 0, 0, 0, 0, 0, 0, 0, 0, 0, 0, 0, 0]
             (drop 17 oversubscribed_payload) = [(''0'', 7), (''1'', 8), (''0'', 9)]"
    by (simp add: oversubscribed_payload_def bitstring_def upt_rec bit_0)
  show ?thesis
    unfolding c 1 2 by simp
qed

section \<open>Proofs: the bit reader\<close>

lemma bitsValue_append:
  "bitsValue B p (m + n) = 2 ^ n * bitsValue B p m + bitsValue B (p + m) n"
  by (induction n) (simp_all add: algebra_simps)

lemma bitsValue_bounds: "0 \<le> bitsValue B p n \<and> bitsValue B p n < 2 ^ n"
  by (induction n) auto

lemma bit_div_step:
  fixes x :: int
  shows "x div 2 ^ k = 2 * (x div 2 ^ Suc k) + (if bit x k then 1 else 0)"
proof -
  have "x div (2 ^ k * 2) = (x div 2 ^ k) div 2"
    by (rule zdiv_zmult2_eq) simp
  then have "x div 2 ^ Suc k = (x div 2 ^ k) div 2"
    by (simp add: mult.commute)
  moreover have "bit x k = odd (x div 2 ^ k)" by (simp add: bit_int_def)
  ultimately show ?thesis by (auto elim: oddE)
qed

lemma mod_double_bit:
  fixes q m :: int
  assumes "0 < m"
  shows "(2 * q + (if c then 1 else 0)) mod (2 * m) = 2 * (q mod m) + (if c then 1 else 0)"
proof (cases c)
  case True
  have "(1 + 2 * q) mod (2 * m) = 1 + 2 * (q mod m)"
    using assms by (intro pos_zmod_mult_2) simp
  then show ?thesis using True by (simp add: add.commute)
next
  case False
  then show ?thesis by simp
qed

lemma bitsValue_in_byte:
  "b + n \<le> 8 \<Longrightarrow> bitsValue B (8 * i + b) n = (byteAt B i div 2 ^ (8 - b - n)) mod 2 ^ n"
proof (induction n)
  case 0
  then show ?case by simp
next
  case (Suc n)
  let ?x = "byteAt B i"
  let ?k = "8 - b - Suc n"
  have k: "8 - b - n = Suc ?k" using Suc.prems by simp
  have pos: "(8 * i + b + n) div 8 = i" "(8 * i + b + n) mod 8 = b + n"
  proof -
    have "8 * i + b + n = (b + n) + i * 8" by simp
    moreover have "b + n < 8" using Suc.prems by simp
    ultimately show "(8 * i + b + n) div 8 = i" "(8 * i + b + n) mod 8 = b + n"
      by (simp_all only: div_mult_self1 mod_mult_self1 div_less mod_less Nat.add_0_right add_0 div_mult_self3 mod_mult_self3)
  qed
  have "7 - (b + n) = ?k" using Suc.prems by simp
  then have bitk: "bitOf B (8 * i + b + n) = bit ?x ?k"
    unfolding bitOf_def pos by simp
  have "bitsValue B (8 * i + b) n = (?x div 2 ^ (8 - b - n)) mod 2 ^ n"
    using Suc by simp
  then have IH: "bitsValue B (8 * i + b) n = (?x div 2 ^ Suc ?k) mod 2 ^ n"
    unfolding k .
  have "(?x div 2 ^ ?k) mod 2 ^ Suc n =
        (2 * (?x div 2 ^ Suc ?k) + (if bit ?x ?k then 1 else 0)) mod 2 ^ Suc n"
    by (rule arg_cong[where f = "\<lambda>v. v mod 2 ^ Suc n"]) (rule bit_div_step)
  also have "\<dots> = (2 * (?x div 2 ^ Suc ?k) + (if bit ?x ?k then 1 else 0)) mod (2 * 2 ^ n)"
    by (simp only: power_Suc)
  also have "\<dots> = 2 * ((?x div 2 ^ Suc ?k) mod 2 ^ n) + (if bit ?x ?k then 1 else 0)"
    by (rule mod_double_bit) simp
  finally have "(?x div 2 ^ ?k) mod 2 ^ Suc n =
      2 * bitsValue B (8 * i + b) n + (if bitOf B (8 * i + b + n) then 1 else 0)"
    unfolding IH bitk .
  then show ?case
    by (simp only: bitsValue.simps)
qed


declare readWholeBytes.simps [simp del]

lemma bitsValue_byte: "bitsValue B (8 * i) 8 = byteAt B i"
proof -
  have "bitsValue B (8 * i + 0) 8 = (byteAt B i div 2 ^ (8 - 0 - 8)) mod 2 ^ 8"
    by (rule bitsValue_in_byte) simp
  then show ?thesis using byteAt_range[of B i] by simp
qed

lemma readWholeBytes_value:
  "readWholeBytes B i (int n) (ToInt32 v) =
     (i + n div 8, int (n mod 8),
      ToInt32 (2 ^ (8 * (n div 8)) * v + bitsValue B (8 * i) (8 * (n div 8))))"
proof (induction n arbitrary: i v rule: less_induct)
  case (less n)
  show ?case
  proof (cases "n < 8")
    case True
    then show ?thesis by (subst readWholeBytes.simps) simp
  next
    case False
    let ?m = "(n - 8) div 8"
    have n8: "n div 8 = Suc ?m" "n mod 8 = (n - 8) mod 8"
      using False by (simp_all add: le_div_geq le_mod_geq)
    have step: "readWholeBytes B i (int n) (ToInt32 v) =
                readWholeBytes B (i + 1) (int (n - 8)) (ToInt32 (2 ^ 8 * v + byteAt B i))"
    proof -
      have "js_or (js_shl (ToInt32 v) 8) (byteAt B i) = ToInt32 (2 ^ nat 8 * v + byteAt B i)"
        using byteAt_range[of B i] by (intro js_or_shl) simp_all
      then show ?thesis using False
        by (subst readWholeBytes.simps) (simp add: of_nat_diff)
    qed
    have IH: "readWholeBytes B (i + 1) (int (n - 8)) (ToInt32 (2 ^ 8 * v + byteAt B i)) =
       (i + 1 + ?m, int ((n - 8) mod 8),
        ToInt32 (2 ^ (8 * ?m) * (2 ^ 8 * v + byteAt B i) + bitsValue B (8 * (i + 1)) (8 * ?m)))"
      using False by (intro less.IH) simp
    have ap: "bitsValue B (8 * i) (8 + 8 * ?m) =
          2 ^ (8 * ?m) * byteAt B i + bitsValue B (8 * i + 8) (8 * ?m)"
      using bitsValue_append[of B "8 * i" 8 "8 * ?m"] by (simp only: bitsValue_byte)
    have e: "8 * (i + 1) = 8 * i + 8" "8 * Suc ?m = 8 + 8 * ?m"
      by simp_all
    have val: "2 ^ (8 * ?m) * (2 ^ 8 * v + byteAt B i) + bitsValue B (8 * (i + 1)) (8 * ?m) =
          2 ^ (8 * Suc ?m) * v + bitsValue B (8 * i) (8 * Suc ?m)"
      unfolding e ap by (simp add: power_add algebra_simps)
    show ?thesis
      unfolding step IH n8 val by simp
  qed
qed


lemma int_div_less:
  fixes x :: int
  assumes "0 < b" "x < a * b"
  shows "x div b < a"
proof (rule ccontr)
  assume "\<not> x div b < a"
  then have "a \<le> x div b" by simp
  then have "a * b \<le> x div b * b" using assms(1) by (simp add: mult_right_mono)
  moreover have "x div b * b + x mod b = x" by simp
  moreover have "0 \<le> x mod b" using assms(1) by simp
  ultimately show False using assms(2) by linarith
qed

lemma bitsValue_head: "n \<le> 8 \<Longrightarrow> bitsValue B (8 * i) n = byteAt B i div 2 ^ (8 - n)"
proof -
  assume n: "n \<le> 8"
  let ?x = "byteAt B i"
  have "bitsValue B (8 * i + 0) n = (?x div 2 ^ (8 - 0 - n)) mod 2 ^ n"
    using n by (intro bitsValue_in_byte) simp
  moreover have "?x div 2 ^ (8 - n) < 2 ^ n"
  proof -
    have "?x < 2 ^ n * 2 ^ (8 - n)" using byteAt_range[of B i] n by (simp flip: power_add)
    then show ?thesis by (intro int_div_less) simp_all
  qed
  moreover have "0 \<le> ?x div 2 ^ (8 - n)" using byteAt_range[of B i] by (simp add: pos_imp_zdiv_nonneg_iff)
  ultimately show ?thesis by simp
qed

lemma readBits_tail:
  assumes al: "p0 + m0 = 8 * i1"
  shows "(case readWholeBytes B i1 (int n1) (ToInt32 (bitsValue B p0 m0)) of
            (index2, nBits2, result2) \<Rightarrow>
              if nBits2 \<noteq> 0
              then Inr (index2, nBits2,
                        js_or (js_shl result2 nBits2) (js_shr (byteAt B index2) (8 - nBits2)))
              else Inr (index2, 0, result2)) =
         (Inr ((8 * i1 + n1) div 8, int ((8 * i1 + n1) mod 8),
               ToInt32 (bitsValue B p0 (m0 + n1))) :: js_error + nat \<times> int \<times> int)"
proof -
  let ?q = "n1 div 8" and ?r = "n1 mod 8"
  let ?i2 = "i1 + ?q"
  have whole: "2 ^ (8 * ?q) * bitsValue B p0 m0 + bitsValue B (8 * i1) (8 * ?q) =
               bitsValue B p0 (m0 + 8 * ?q)"
    using bitsValue_append[of B p0 m0 "8 * ?q"] al by simp
  have rw: "readWholeBytes B i1 (int n1) (ToInt32 (bitsValue B p0 m0)) =
            (?i2, int ?r, ToInt32 (bitsValue B p0 (m0 + 8 * ?q)))"
    unfolding readWholeBytes_value whole ..
  have cur: "(8 * i1 + n1) div 8 = ?i2" "(8 * i1 + n1) mod 8 = ?r"
    by simp_all
  show ?thesis
  proof (cases "?r = 0")
    case True
    then have "8 * ?q = n1" by presburger
    then show ?thesis unfolding rw cur using True by simp
  next
    case False
    have r8: "?r < 8" by simp
    let ?y = "byteAt B ?i2 div 2 ^ (8 - ?r)"
    have y: "bitsValue B (8 * ?i2) ?r = ?y"
      using r8 by (intro bitsValue_head) simp
    have shr: "js_shr (byteAt B ?i2) (8 - int ?r) = ?y"
    proof -
      have "js_shr (byteAt B ?i2) (8 - int ?r) = byteAt B ?i2 div 2 ^ nat (8 - int ?r)"
        using byteAt_range[of B ?i2] r8 by (intro js_shr_small) simp_all
      moreover have "nat (8 - int ?r) = 8 - ?r" by simp
      ultimately show ?thesis by simp
    qed
    have yb: "0 \<le> ?y" "?y < 2 ^ nat (int ?r)"
      using bitsValue_bounds[of B "8 * ?i2" ?r] unfolding y by simp_all
    have "js_or (js_shl (ToInt32 (bitsValue B p0 (m0 + 8 * ?q))) (int ?r)) ?y =
          ToInt32 (2 ^ nat (int ?r) * bitsValue B p0 (m0 + 8 * ?q) + ?y)"
      using r8 yb by (intro js_or_shl) simp_all
    also have "2 ^ nat (int ?r) * bitsValue B p0 (m0 + 8 * ?q) + ?y =
               bitsValue B p0 (m0 + 8 * ?q + ?r)"
    proof -
      have eq: "p0 + (m0 + 8 * ?q) = 8 * ?i2" using al by simp
      have "bitsValue B (p0 + (m0 + 8 * ?q)) ?r = ?y" unfolding eq by (rule y)
      then show ?thesis
        using bitsValue_append[of B p0 "m0 + 8 * ?q" ?r] by simp
    qed
    also have "m0 + 8 * ?q + ?r = m0 + n1" by simp
    finally have "js_or (js_shl (ToInt32 (bitsValue B p0 (m0 + 8 * ?q))) (int ?r)) ?y =
          ToInt32 (bitsValue B p0 (m0 + n1))" .
    then show ?thesis
      unfolding rw cur using False by (simp add: shr)
  qed
qed


lemma ToInt32_bitsValue_small: "n \<le> 8 \<Longrightarrow> ToInt32 (bitsValue B p n) = bitsValue B p n"
proof -
  assume "n \<le> 8"
  then have "(2::int) ^ n \<le> 2 ^ 8" by (intro power_increasing) auto
  then have "bitsValue B p n < 256" using bitsValue_bounds[of B p n] by simp
  then show ?thesis using bitsValue_bounds[of B p n] by (intro ToInt32_id) simp_all
qed

text \<open>
  Claim C7, amended. \<open>readBits\<close> never reports the end of the input: for every buffer
  \<open>B\<close>, byte index \<open>i\<close>, bit index \<open>b\<close> in 0..7 and count \<open>n\<close> in 0..32 it
  returns a triple, also when the requested bits extend past the end of \<open>B\<close>. The
  new cursor is \<open>n\<close> bits further, and the value is the big-endian number spelt by the
  \<open>n\<close> bits from the cursor on, with every bit past the end of \<open>B\<close> read as 0,
  as a signed 32-bit integer.
\<close>

theorem C7_readBits_never_reports_end_of_input:
  assumes b: "b < 8" and n: "n \<le> 32"
  shows "readBits B i (int b) (int n) =
           Inr ((8 * i + b + n) div 8, int ((8 * i + b + n) mod 8),
                ToInt32 (bitsValue B (8 * i + b) n))"
proof -
  let ?x = "byteAt B i"
  have xr: "0 \<le> ?x" "?x < 2 ^ 31" using byteAt_range[of B i] by simp_all
  consider (A) "b \<noteq> 0" "b + n \<le> 8" | (B) "b \<noteq> 0" "8 < b + n" | (C) "b = 0"
    by linarith
  then show ?thesis
  proof cases
    case A
    have k: "0 \<le> 8 - int b - int n" "8 - int b - int n < 32" using A b by simp_all
    have shr: "js_shr ?x (8 - int b - int n) = ?x div 2 ^ (8 - b - n)"
    proof -
      have "nat (8 - int b - int n) = 8 - b - n" by simp
      then show ?thesis using js_shr_small[OF xr k] by simp
    qed
    have shl: "js_shl 1 (int n) = 2 ^ n"
      using js_shl_1[of "int n"] A by simp
    have q: "0 \<le> ?x div 2 ^ (8 - b - n)" "?x div 2 ^ (8 - b - n) < 2 ^ 31"
    proof -
      show "0 \<le> ?x div 2 ^ (8 - b - n)" using xr by (simp add: pos_imp_zdiv_nonneg_iff)
      have "?x div 2 ^ (8 - b - n) \<le> ?x div 1"
        using xr by (intro zdiv_mono2) simp_all
      then show "?x div 2 ^ (8 - b - n) < 2 ^ 31" using xr by simp
    qed
    have "n \<le> 30" using A by simp
    then have "js_and (?x div 2 ^ (8 - b - n)) (2 ^ n - 1) = (?x div 2 ^ (8 - b - n)) mod 2 ^ n"
      using q by (intro js_and_mask)
    also have "\<dots> = bitsValue B (8 * i + b) n"
      using A by (simp add: bitsValue_in_byte)
    finally have res: "js_and (js_shr ?x (8 - int b - int n)) (js_shl 1 (int n) - 1) =
                       ToInt32 (bitsValue B (8 * i + b) n)"
      using A by (simp add: shr shl ToInt32_bitsValue_small)
    have cur: "(8 * i + b + n) div 8 = (if b + n = 8 then i + 1 else i)"
              "(8 * i + b + n) mod 8 = (if b + n = 8 then 0 else b + n)"
      using A by (auto simp: add.assoc)
    have cond: "int b \<noteq> 0 \<and> 8 - int b \<ge> int n" using A by simp
    have eq8: "(int b + int n = 8) = (b + n = 8)" by linarith
    show ?thesis
      unfolding readBits_def cur using n cond by (simp add: res Let_def eq8)
  next
    case B
    let ?n1 = "n - (8 - b)"
    have sh: "js_shl 1 (8 - int b) = 2 ^ (8 - b)"
    proof -
      have "nat (8 - int b) = 8 - b" by simp
      then show ?thesis using js_shl_1[of "8 - int b"] b by simp
    qed
    have "js_and ?x (2 ^ (8 - b) - 1) = ?x mod 2 ^ (8 - b)"
      using xr by (intro js_and_mask) simp_all
    also have "\<dots> = bitsValue B (8 * i + b) (8 - b)"
      using b bitsValue_in_byte[of b "8 - b" B i] by simp
    finally have r1: "js_and ?x (js_shl 1 (8 - int b) - 1) = ToInt32 (bitsValue B (8 * i + b) (8 - b))"
      by (simp add: sh ToInt32_bitsValue_small)
    have al: "(8 * i + b) + (8 - b) = 8 * (i + 1)" using b by simp
    have n1: "int n - (8 - int b) = int ?n1" using B b by simp
    have tot: "8 * (i + 1) + ?n1 = 8 * i + b + n" "(8 - b) + ?n1 = n" using B b by simp_all
    have cond: "int b \<noteq> 0" "\<not> 8 - int b \<ge> int n" using B by simp_all
    have tail: "(case readWholeBytes B (i + 1) (int ?n1) (ToInt32 (bitsValue B (8 * i + b) (8 - b))) of
            (index2, nBits2, result2) \<Rightarrow>
              if nBits2 \<noteq> 0
              then Inr (index2, nBits2,
                        js_or (js_shl result2 nBits2) (js_shr (byteAt B index2) (8 - nBits2)))
              else Inr (index2, 0, result2)) =
         (Inr ((8 * i + b + n) div 8, int ((8 * i + b + n) mod 8),
               ToInt32 (bitsValue B (8 * i + b) n)) :: js_error + nat \<times> int \<times> int)"
      using readBits_tail[OF al, of B ?n1] unfolding tot .
    have "readBits B i (int b) (int n) =
          (case readWholeBytes B (i + 1) (int ?n1) (ToInt32 (bitsValue B (8 * i + b) (8 - b))) of
            (index2, nBits2, result2) \<Rightarrow>
              if nBits2 \<noteq> 0
              then Inr (index2, nBits2,
                        js_or (js_shl result2 nBits2) (js_shr (byteAt B index2) (8 - nBits2)))
              else Inr (index2, 0, result2))"
      unfolding readBits_def using n cond by (simp add: r1 n1 Let_def)
    then show ?thesis
      unfolding tail .
  next
    case C
    have al: "(8 * i) + 0 = 8 * i" by simp
    have tail: "(case readWholeBytes B i (int n) (ToInt32 (bitsValue B (8 * i) 0)) of
            (index2, nBits2, result2) \<Rightarrow>
              if nBits2 \<noteq> 0
              then Inr (index2, nBits2,
                        js_or (js_shl result2 nBits2) (js_shr (byteAt B index2) (8 - nBits2)))
              else Inr (index2, 0, result2)) =
         (Inr ((8 * i + n) div 8, int ((8 * i + n) mod 8),
               ToInt32 (bitsValue B (8 * i) (0 + n))) :: js_error + nat \<times> int \<times> int)"
      by (rule readBits_tail[OF al])
    have z: "ToInt32 (bitsValue B (8 * i) 0) = 0" by (simp add: ToInt32_def)
    have "readBits B i (int b) (int n) =
          (case readWholeBytes B i (int n) 0 of
            (index2, nBits2, result2) \<Rightarrow>
              if nBits2 \<noteq> 0
              then Inr (index2, nBits2,
                        js_or (js_shl result2 nBits2) (js_shr (byteAt B index2) (8 - nBits2)))
              else Inr (index2, 0, result2))"
      unfolding readBits_def using n C by (simp add: Let_def)
    then show ?thesis
      using tail unfolding z using C by simp
  qed
qed

lemma bitsValue_empty: "bitsValue [] p n = 0"
  by (induction n) (simp_all add: bitOf_def byteAt_def)

theorem C7_witness:
  "(0::nat) < 8 \<and> (8::nat) \<le> 32 \<and> readBits [] 0 (int 0) (int 8) = Inr (1, 0, 0)"
proof -
  show ?thesis
    using C7_readBits_never_reports_end_of_input[of 0 8 "[]" 0]
    by (simp add: ToInt32_def bitsValue_empty)
qed

text \<open>
  The claim as stated fails: eight bits requested from the empty buffer reach past its
  end, and \<open>readBits\<close> returns the value 0 with the cursor moved to byte 1.
\<close>

theorem C7_past_end_counterexample: "readBits [] 0 0 8 = Inr (1, 0, 0)"
proof -
  have "readWholeBytes [] 0 8 0 = (1, 0, 0)"
    using readWholeBytes_value[of "[]" 0 8 0] by (simp add: ToInt32_def bitsValue_empty)
  then show ?thesis
    by (simp add: readBits_def)
qed

section \<open>Proofs: grayscale painting\<close>

text \<open>
  Claim C9. \<open>paintGrayscalePixels\<close> adds the level shift 128 but does not call
  \<open>clampRGB\<close>: the sum is stored in the raster as it is, truncated and reduced
  modulo 256 by the buffer. A sample of 200 is stored as 72 (clamped: 255), a sample of
  -200 as 184 (clamped: 0), and a sample of 0.6 as 128 (rounded: 129).
\<close>

theorem C9_grayscale_not_clamped:
  "paintGrayscalePixels 1 (alloc 3) [[Some 200]] 0 1 0 1 =
     Inr \<lparr>raster_bytes = [72, 72, 72], raster_writes = [2, 1, 0]\<rparr> \<and>
   clampRGB (200 + 128) = 255 \<and>
   paintGrayscalePixels 1 (alloc 3) [[Some (- 200)]] 0 1 0 1 =
     Inr \<lparr>raster_bytes = [184, 184, 184], raster_writes = [2, 1, 0]\<rparr> \<and>
   clampRGB (- 200 + 128) = 0 \<and>
   paintGrayscalePixels 1 (alloc 3) [[Some (6 / 10)]] 0 1 0 1 =
     Inr \<lparr>raster_bytes = [128, 128, 128], raster_writes = [2, 1, 0]\<rparr> \<and>
   clampRGB (6 / 10 + 128) = 129"
proof -
  have f: "\<lfloor>(643::real) / 5\<rfloor> = 128" "\<lfloor>(1291::real) / 10\<rfloor> = 129"
    by (simp_all add: floor_divide_real_eq_div)
  have a: "alloc 3 = \<lparr>raster_bytes = [0, 0, 0], raster_writes = []\<rparr>"
    by (simp add: alloc_def numeral_3_eq_3)
  show ?thesis
    unfolding a
    by (simp add: paintGrayscalePixels_def storeByte_def toUint8_def sampleAt_def clampRGB_def f)
qed


section \<open>The round trip of the arithmetic coder\<close>

lemmas coder_eval =
  encodeBit_def encodeDecision_def encodeMPS_def encodeLPS_def new_Coder_def new_Statistics_def
  stateAt_def elemAt_def mpsAt_def updateStatistics_def Coder_renormalize.simps emitOutputByte_def
  flush_def js_shl_def js_and_def js_ushr_def ToInt32_def ToUint32_def stateTable_def Let_def

lemmas decoder_eval =
  decodeBit_def decodeDecision_def new_Decoder_def consumeInputByte_def new_Statistics_def
  stateAt_def elemAt_def mpsAt_def updateStatistics_def renormalize.simps
  js_shl_def js_ushr_def ToInt32_def ToUint32_def stateTable_def Let_def

lemma decodeBits_numeral:
  "decodeBits d stats context (numeral k) =
     (case decodeBit d stats context of
        None \<Rightarrow> None
      | Some (Inl (e, d')) \<Rightarrow> Some (Inl e)
      | Some (Inr (b, d', stats')) \<Rightarrow>
          (case decodeBits d' stats' context (pred_numeral k) of
             None \<Rightarrow> None
           | Some (Inl e) \<Rightarrow> Some (Inl e)
           | Some (Inr bs) \<Rightarrow> Some (Inr (b # bs))))"
  by (simp add: numeral_eq_Suc)

lemma removeStuffingLoop_done:
  "indexOf buffer 0xFF searchIndex = None \<Longrightarrow>
   removeStuffingLoop buffer ff searchIndex =
     take (ff + length buffer - searchIndex + 1)
       (copyWithin buffer (ff + 1) searchIndex (length buffer))"
  by (subst removeStuffingLoop.simps) simp

lemma carry_encoded: "encodeSequence 1 0 carry_bits = Some (Inr [255, 0, 128])"
  unfolding encodeSequence_def carry_bits_def by (simp add: coder_eval)

lemma carry_unstuffed:
  "map uint (removeByteStuffing (map word_of_int [255, 0, 128])) = [255, 128]"
  by (simp add: removeByteStuffing_def indexOf_def stuffedAt_def removeStuffingLoop_done
      copyWithin_def)

lemma carry_decoded:
  "decodeSequence 1 0 [255, 0, 128] 16 =
     Some (Inr [True, False, True, False, False, True, True, True,
                True, True, True, True, True, True, True, True])"
  unfolding decodeSequence_def carry_unstuffed
  by (simp add: decodeBits_numeral decoder_eval)

text \<open>
  Claim C1 (round trip of the arithmetic coder). The claim is that encoding a bit
  sequence in one context, flushing, removing the stuffed zero bytes and decoding with a
  fresh decoder and fresh statistics gives the sequence back. The code does not do this
  for the 16 bits 1010000100000100 in context 0 of a one-context statistics area: the
  coder has written the byte 0xFE when the next byte, 0x00, arrives with a carry;
  \<open>emitOutputByte\<close> increments the 0xFE to 0xFF without stuffing a zero after it,
  and the output is 0xFF 0x00 0x80, whose 0x00 is data. After the removal of stuffing the decoder reads
  0xFF 0x80 and returns 1010011111111111.
\<close>

theorem C1_carry_breaks_round_trip:
  "encodeSequence 1 0 carry_bits = Some (Inr [255, 0, 128]) \<and>
   decodeSequence 1 0 [255, 0, 128] (length carry_bits) =
     Some (Inr [True, False, True, False, False, True, True, True,
                True, True, True, True, True, True, True, True]) \<and>
   decodeSequence 1 0 [255, 0, 128] (length carry_bits) \<noteq> Some (Inr carry_bits)"
proof -
  have len: "length carry_bits = 16" by (simp add: carry_bits_def)
  show ?thesis
    unfolding len using carry_encoded carry_decoded by (simp add: carry_bits_def)
qed

section \<open>Context indices of the coefficient decoder\<close>

lemma consumeInputByte_contexts: "contexts (consumeInputByte d) = contexts d"
  by (simp add: consumeInputByte_def split: list.splits)

lemma renormalize_contexts: "renormalize d = Some d' \<Longrightarrow> contexts d' = contexts d"
proof (erule renormalize.raw_induct[where P = "\<lambda>d d'. contexts d' = contexts d", rotated 1])
  fix f :: "Decoder \<Rightarrow> Decoder option" and d da
  assume IH: "\<And>x y. f x = Some y \<Longrightarrow> contexts y = contexts x"
    and step: "(let d1 = if neededBits d = 0 then consumeInputByte d\<lparr>neededBits := 8\<rparr> else d;
          d2 = d1\<lparr>intervalSize := js_shl (intervalSize d1) 1,
                  intervalBase := js_shl (intervalBase d1) 1,
                  neededBits := neededBits d1 - 1\<rparr>
      in if intervalSize d2 < 32768 then f d2 else Some d2) = Some da"
  show "contexts da = contexts d"
    using step by (auto simp: Let_def consumeInputByte_contexts split: if_splits dest!: IH)
qed

lemma decodeDecision_cases:
  assumes "decodeDecision d p mps a b c = Some ((result, nextState, swap), d')"
  shows "contexts d' = contexts d \<and> (nextState = None \<or> nextState = Some a \<or> nextState = Some b)"
proof -
  let ?d1 = "d\<lparr>intervalSize := intervalSize d - p\<rparr>"
  let ?d2 = "?d1\<lparr>intervalBase := intervalBase ?d1 - js_shl (intervalSize ?d1) 16, intervalSize := p\<rparr>"
  consider (early) "d' = ?d1" "nextState = None"
    | (mid) "renormalize ?d1 = Some d'" "nextState = Some a \<or> nextState = Some b"
    | (low) "renormalize ?d2 = Some d'" "nextState = Some a \<or> nextState = Some b"
    using assms unfolding decodeDecision_def Let_def
    by (fastforce split: if_splits)
  then show ?thesis
  proof cases
    case early
    then show ?thesis by simp
  next
    case mid
    then show ?thesis using renormalize_contexts[OF mid(1)] by simp
  next
    case low
    then show ?thesis using renormalize_contexts[OF low(1)] by simp
  qed
qed

lemma stateTable_closed:
  "list_all (\<lambda>row. nextLPS row < 113 \<and> nextMPS row < 113) stateTable"
  by (simp add: stateTable_def)

lemma returned_ok_refl: "returned_ok n d d"
  by (simp add: returned_ok_def inBounds_def)

lemma returned_ok_trans:
  "returned_ok n d d1 \<Longrightarrow> returned_ok n d1 d2 \<Longrightarrow> returned_ok n d d2"
  by (auto simp: returned_ok_def inBounds_def)

lemma thrown_ok_trans:
  "returned_ok n d d1 \<Longrightarrow> thrown_ok n d1 d2 \<Longrightarrow> thrown_ok n d d2"
  by (auto simp: returned_ok_def thrown_ok_def inBounds_def)

lemma run_ok_trans:
  "returned_ok n d d1 \<Longrightarrow> run_ok n d1 r \<Longrightarrow> run_ok n d r"
  by (auto simp: run_ok_def split: sum.splits intro: returned_ok_trans thrown_ok_trans)

lemma list_all_update: "list_all P xs \<Longrightarrow> P v \<Longrightarrow> list_all P (xs[i := v])"
  unfolding list_all_iff using set_update_subset_insert[of xs i v] by auto

lemma wf_updateStatistics:
  assumes "wf_stats n stats" and "\<And>s. nextState = Some s \<Longrightarrow> s < 113"
  shows "wf_stats n (updateStatistics stats c mps nextState swap)"
  using assms
  by (auto simp: wf_stats_def sized_def updateStatistics_def Let_def stateTable_length
      intro!: list_all_update split: option.splits)

lemma decodeBit_run:
  assumes wf: "wf_stats n stats" and run: "decodeBit d stats c = Some r"
  shows "run_ok n d r"
proof (cases "0 \<le> c \<and> nat c < n")
  case False
  then have "stateAt stats c = None"
    using wf by (simp add: stateAt_def wf_stats_def sized_def)
  then have r: "r = Inl (TypeError ''Cannot read properties of undefined'', d\<lparr>contexts := contexts d @ [c]\<rparr>)"
    using run by (simp add: decodeBit_def Let_def)
  have "thrown_ok n d (d\<lparr>contexts := contexts d @ [c]\<rparr>)"
    unfolding thrown_ok_def using False
    by (intro exI[of _ "[]"] exI[of _ c]) (auto simp: inBounds_def)
  then show ?thesis by (simp add: r run_ok_def)
next
  case True
  let ?d = "d\<lparr>contexts := contexts d @ [c]\<rparr>"
  let ?s = "states stats ! nat c"
  let ?row = "stateTable ! ?s"
  have len: "length (states stats) = n" and all: "list_all (\<lambda>s. s < length stateTable) (states stats)"
    using wf by (simp_all add: wf_stats_def sized_def)
  have s: "?s < 113"
    using all True len by (simp add: list_all_length stateTable_length)
  have st: "stateAt stats c = Some ?s"
    using True len by (simp add: stateAt_def)
  have row: "elemAt stateTable (int ?s) = Some ?row"
    using s by (simp add: elemAt_def stateTable_length)
  have closed: "nextLPS ?row < 113 \<and> nextMPS ?row < 113"
    using stateTable_closed s by (simp add: list_all_length stateTable_length)
  obtain result nextState swap d' where
    dd: "decodeDecision ?d (probability ?row) (mpsAt stats c) (nextMPS ?row) (nextLPS ?row) (swapMPS ?row)
           = Some ((result, nextState, swap), d')"
    and r: "r = Inr (result, d', updateStatistics stats c (mpsAt stats c) nextState swap)"
    using run unfolding decodeBit_def Let_def st by (auto simp: row)
  from decodeDecision_cases[OF dd]
  have ctx: "contexts d' = contexts d @ [c]"
    and ns: "nextState = None \<or> nextState = Some (nextMPS ?row) \<or> nextState = Some (nextLPS ?row)"
    by simp_all
  have "wf_stats n (updateStatistics stats c (mpsAt stats c) nextState swap)"
    using wf ns closed by (intro wf_updateStatistics) auto
  moreover have "returned_ok n d d'"
    unfolding returned_ok_def using ctx True by (intro exI[of _ "[c]"]) (auto simp: inBounds_def)
  ultimately show ?thesis by (simp add: r run_ok_def)
qed

lemma step_run:
  assumes body: "(case m of None \<Rightarrow> None | Some (Inl err) \<Rightarrow> Some (Inl err) | Some (Inr x) \<Rightarrow> k x) = Some r"
    and first: "\<And>r1. m = Some r1 \<Longrightarrow> run_ok n d r1"
    and rest: "\<And>v d1 s1. m = Some (Inr (v, d1, s1)) \<Longrightarrow> wf_stats n s1 \<Longrightarrow> k (v, d1, s1) = Some r
                \<Longrightarrow> run_ok n d1 r"
  shows "run_ok n d r"
proof (cases m)
  case None
  then show ?thesis using body by simp
next
  case (Some r1)
  note ok1 = first[OF Some]
  show ?thesis
  proof (cases r1)
    case (Inl err)
    then have "r = Inl err" using body Some by simp
    then show ?thesis using ok1 Inl by (simp add: run_ok_def)
  next
    case (Inr x)
    obtain v d1 s1 where x: "x = (v, d1, s1)" by (cases x)
    have wf1: "wf_stats n s1" and ret: "returned_ok n d d1"
      using ok1 Inr x by (simp_all add: run_ok_def)
    have "k (v, d1, s1) = Some r" using body Some Inr x by simp
    then have "run_ok n d1 r" using rest Some Inr x wf1 by simp
    then show ?thesis using ret by (rule run_ok_trans[rotated])
  qed
qed

lemma magnitudeLoop_run:
  assumes "magnitudeLoop d stats context magnitude = Some r" and "wf_stats n stats"
  shows "run_ok n d r"
proof -
  have "wf_stats n stats \<longrightarrow> run_ok n d r"
    using assms(1)
    apply (rule magnitudeLoop.raw_induct[where P = "\<lambda>d stats context magnitude r. wf_stats n stats \<longrightarrow> run_ok n d r", rotated 1])
    apply (intro impI)
    apply (erule step_run)
     apply (erule (1) decodeBit_run)
    apply (auto split: if_splits simp: run_ok_def returned_ok_refl)
    done
  then show ?thesis using assms(2) by simp
qed

lemma run_ok_return: "wf_stats n stats \<Longrightarrow> run_ok n d (Inr (v, d, stats))"
  by (simp add: run_ok_def returned_ok_refl)

lemma valueBitsLoop_run:
  assumes "valueBitsLoop d stats context magnitude v = Some r" and "wf_stats n stats"
  shows "run_ok n d r"
proof -
  have "wf_stats n stats \<longrightarrow> run_ok n d r"
    using assms(1)
    apply (rule valueBitsLoop.raw_induct[where P = "\<lambda>d stats context magnitude v r. wf_stats n stats \<longrightarrow> run_ok n d r", rotated 1])
    apply (intro impI)
    apply (simp split: if_splits)
     apply (erule step_run)
      apply (erule (1) decodeBit_run)
     apply (auto simp: run_ok_return)
    done
  then show ?thesis using assms(2) by simp
qed

lemma decodeSign_run:
  assumes "decodeSign d stats signContext = Some r" and "wf_stats n stats"
  shows "run_ok n d r"
proof (cases "signContext \<noteq> None \<and> signContext \<noteq> Some 0")
  case True
  then have "(case decodeBit d stats (the signContext) of
              None \<Rightarrow> None
            | Some (Inl err) \<Rightarrow> Some (Inl err)
            | Some (Inr (b, d', stats')) \<Rightarrow> Some (Inr (if b then - 1 else 1, d', stats'))) = Some r"
    using assms(1) by (simp add: decodeSign_def)
  then show ?thesis
    apply (rule step_run)
     apply (erule decodeBit_run[OF assms(2)])
    apply (auto simp: run_ok_return)
    done
next
  case False
  then obtain signBit nextState swap d' where
    dd: "decodeDecision d 0x5A1D False 0 0 0 = Some ((signBit, nextState, swap), d')"
    and r: "r = Inr (if signBit then - 1 else 1, d', stats)"
    using assms(1) by (auto simp: decodeSign_def split: option.splits)
  have "contexts d' = contexts d" using decodeDecision_cases[OF dd] by simp
  then have "returned_ok n d d'" by (simp add: returned_ok_def inBounds_def)
  then show ?thesis using assms(2) by (simp add: r run_ok_def)
qed

lemma if_run:
  assumes "(if c then Some (Inr (v, d, s)) else m) = Some r" and "wf_stats n s"
    and "\<not> c \<Longrightarrow> m = Some r \<Longrightarrow> run_ok n d r"
  shows "run_ok n d r"
  using assms by (auto simp: run_ok_return split: if_splits)

lemma decodeSignMagnitude_run:
  assumes "decodeSignMagnitude d stats signContext posContext negContext magContext1 magContext2 = Some r"
    and "wf_stats n stats"
  shows "run_ok n d r"
  using assms(1) unfolding decodeSignMagnitude_def
  apply (rule step_run)
   apply (erule decodeSign_run[OF _ assms(2)])
  apply (simp only: prod.case)
  apply (erule step_run)
   apply (erule (1) decodeBit_run[rotated])
  apply (simp only: prod.case)
  apply (erule if_run, assumption)
  apply (erule step_run)
   apply (erule (1) decodeBit_run[rotated])
  apply (simp only: prod.case)
  apply (erule if_run, assumption)
  apply (erule step_run)
   apply (erule (1) magnitudeLoop_run)
  apply (simp only: split_paired_all prod.case)
  apply (erule step_run)
   apply (erule (1) valueBitsLoop_run)
  apply (auto simp: run_ok_return)
  done

lemma decodeDCCoefficientDelta_run:
  assumes "decodeDCCoefficientDelta d stats prevDCDelta lowThreshold highThreshold = Some r"
    and "wf_stats n stats"
  shows "run_ok n d r"
  using assms(1) unfolding decodeDCCoefficientDelta_def Let_def
  apply (rule step_run)
   apply (erule decodeBit_run[OF assms(2)])
  apply (simp only: prod.case)
  apply (erule if_run, assumption)
  apply (erule (1) decodeSignMagnitude_run)
  done

lemma zeroRunLoop_run:
  assumes "zeroRunLoop d stats S0 SN_SP X1' zigZagIndex acCoefficients = Some r" and "wf_stats n stats"
  shows "run_ok n d r"
proof -
  have "wf_stats n stats \<longrightarrow> run_ok n d r"
    using assms(1)
    apply (rule zeroRunLoop.raw_induct[where P = "\<lambda>d stats S0 SN_SP X1' zigZagIndex acCoefficients r. wf_stats n stats \<longrightarrow> run_ok n d r", rotated 1])
    apply (intro impI)
    apply (erule step_run)
     apply (erule (1) decodeBit_run)
    apply (auto split: if_splits simp: run_ok_return)
    done
  then show ?thesis using assms(2) by simp
qed

lemma decodeACLoop_run:
  assumes "decodeACLoop d stats threshold spectralStart spectralEnd zigZagIndex acCoefficients = Some r"
    and "wf_stats n stats"
  shows "run_ok n d r"
proof -
  have "wf_stats n stats \<longrightarrow> run_ok n d r"
    using assms(1)
    apply (rule decodeACLoop.raw_induct[where P = "\<lambda>d stats threshold spectralStart spectralEnd zigZagIndex acCoefficients r. wf_stats n stats \<longrightarrow> run_ok n d r", rotated 1])
    apply (intro impI)
    apply (erule step_run)
     apply (erule (1) decodeBit_run)
    apply (simp only: prod.case)
    apply (erule if_run, assumption)
    apply (erule step_run)
     apply (erule (1) zeroRunLoop_run)
    apply (simp only: split_paired_all prod.case)
    apply (erule step_run)
     apply (erule (1) decodeSignMagnitude_run)
    apply (simp only: prod.case)
    apply (auto split: if_splits simp: run_ok_return)
    done
  then show ?thesis using assms(2) by simp
qed

lemma decodeACCoefficients_run:
  assumes "decodeACCoefficients d stats threshold spectralStart spectralEnd = Some r"
    and "wf_stats n stats"
  shows "run_ok n d r"
  using assms unfolding decodeACCoefficients_def by (rule decodeACLoop_run)

lemma inBounds_set: "inBounds n cs \<longleftrightarrow> set cs \<subseteq> {0..int n - 1}"
  by (auto simp: inBounds_def list_all_iff)

lemma run_ok_returned:
  assumes "run_ok n d (Inr (v, d', stats'))"
  shows "wf_stats n stats' \<and> (\<exists>cs. contexts d' = contexts d @ cs \<and> set cs \<subseteq> {0..int n - 1})"
  using assms by (auto simp: run_ok_def returned_ok_def inBounds_set)

lemma run_ok_thrown:
  assumes "run_ok n d (Inl (err, d'))"
  shows "\<exists>cs c. contexts d' = contexts d @ cs @ [c] \<and> set cs \<subseteq> {0..int n - 1} \<and> c \<notin> {0..int n - 1}"
proof -
  obtain cs c where "contexts d' = contexts d @ cs @ [c]" "inBounds n cs" "c < 0 \<or> int n \<le> c"
    using assms by (auto simp: run_ok_def thrown_ok_def)
  then show ?thesis
    by (intro exI[of _ cs] exI[of _ c]) (auto simp: inBounds_set)
qed

lemma wf_new_Statistics: "wf_stats n (new_Statistics n)"
  by (simp add: wf_stats_def sized_def new_Statistics_def list_all_iff stateTable_length)

lemma wf_reset: "wf_stats n stats \<Longrightarrow> wf_stats n (reset stats)"
  by (simp add: wf_stats_def sized_def reset_def list_all_iff stateTable_length)

lemmas coefficient_eval =
  decodeDCCoefficientDelta_def decodeACCoefficients_def decodeSignMagnitude_def decodeSign_def
  magnitudeLoop.simps valueBitsLoop.simps zeroRunLoop.simps decodeACLoop.simps padZeroes_def
  new_dcStats_def new_acStats_def js_shr_def
  S0_zero_def S0_small_def S0_large_def S0_neg_small_def S0_neg_large_def X1_def M2_def
  X2_low_def X2_high_def

lemma decodeBit_in_bounds:
  assumes wf: "wf_stats n stats" and c: "0 \<le> c" "c < int n"
    and run: "decodeBit d stats c = Some r"
  shows "\<exists>b d' stats'. r = Inr (b, d', stats') \<and> wf_stats n stats'"
proof -
  let ?s = "states stats ! nat c"
  have len: "length (states stats) = n" and all: "list_all (\<lambda>s. s < length stateTable) (states stats)"
    using wf by (simp_all add: wf_stats_def sized_def)
  have s: "?s < 113"
    using all c len by (simp add: list_all_length stateTable_length)
  have st: "stateAt stats c = Some ?s"
    using c len by (simp add: stateAt_def)
  have row: "elemAt stateTable (int ?s) = Some (stateTable ! ?s)"
    using s by (simp add: elemAt_def stateTable_length)
  obtain b d' stats' where r: "r = Inr (b, d', stats')"
    using run unfolding decodeBit_def Let_def st by (auto simp: row)
  have "wf_stats n stats'"
    using decodeBit_run[OF wf run] by (simp add: r run_ok_def)
  then show ?thesis using r by blast
qed

lemma js_shr_negative:
  assumes "- (2 ^ 31) \<le> m" "m < 0"
  shows "- (2 ^ 31) \<le> js_shr m 1 \<and> js_shr m 1 < 0"
proof -
  have "ToInt32 m = m"
    unfolding ToInt32_def using assms by (intro signed_take_bit_int_eq_self) simp_all
  then have "js_shr m 1 = m div 2" by (simp add: js_shr_def drop_bit_eq_div)
  then show ?thesis using assms by simp
qed

text \<open>
  The value-bit loop \<open>while (magnitude >>= 1)\<close> with a negative 32-bit \<open>magnitude\<close>:
  the sign-propagating shift keeps it negative, so the condition stays true, and as long
  as the context index lies inside the statistics area no call of \<open>decodeBit\<close> throws.
  The loop never ends.
\<close>

lemma valueBitsLoop_hangs:
  assumes "wf_stats n stats" and "0 \<le> context" and "context < int n"
    and "- (2 ^ 31) \<le> magnitude" and "magnitude < 0"
  shows "valueBitsLoop d stats context magnitude v = None"
proof (rule ccontr)
  assume "valueBitsLoop d stats context magnitude v \<noteq> None"
  then obtain r where r: "valueBitsLoop d stats context magnitude v = Some r" by blast
  let ?I = "\<lambda>stats c m. wf_stats n stats \<and> 0 \<le> c \<and> c < int n \<and> - (2 ^ 31) \<le> m \<and> m < (0::int)"
  have "\<not> ?I stats context magnitude"
    using r
  proof (rule valueBitsLoop.raw_induct[where P = "\<lambda>d stats c m v r. \<not> ?I stats c m", rotated 1])
    fix loop d stats c m v r
    assume IH: "\<And>d stats c m v r. loop d stats c m v = Some r \<Longrightarrow> \<not> ?I stats c m"
      and step: "(if js_shr m 1 \<noteq> 0
      then (case decodeBit d stats c of
              None \<Rightarrow> None
            | Some (Inl err) \<Rightarrow> Some (Inl err)
            | Some (Inr (b, d', stats')) \<Rightarrow>
                loop d' stats' c (js_shr m 1) (if b then v + js_shr m 1 else v))
      else Some (Inr (v, d, stats))) = Some r"
    show "\<not> ?I stats c m"
    proof
      assume I: "?I stats c m"
      then have m: "- (2 ^ 31) \<le> js_shr m 1 \<and> js_shr m 1 < 0"
        using js_shr_negative[of m] by simp
      then have nz: "js_shr m 1 \<noteq> 0" by simp
      obtain r1 where r1: "decodeBit d stats c = Some r1"
        using step nz by (cases "decodeBit d stats c") auto
      from decodeBit_in_bounds[OF _ _ _ r1, of n] I
      obtain b d' stats' where b: "r1 = Inr (b, d', stats')" and wf': "wf_stats n stats'"
        by blast
      have "loop d' stats' c (js_shr m 1) (if b then v + js_shr m 1 else v) = Some r"
        using step nz r1 b by simp
      from IH[OF this] show False using wf' I m by simp
    qed
  qed
  then show False using assms by simp
qed

lemma list_all_replicate: "list_all P (replicate n x) \<longleftrightarrow> n = 0 \<or> P x"
  by (auto simp: list_all_iff)

lemmas wf_eval = wf_stats_def sized_def stateTable_length list_all_update list_all_replicate

text \<open>
  Claim C10 (context indices stay inside the statistics areas) fails, on inputs that the
  source does not expect: the comment in the zero-run loop of \<open>decodeACCoefficients\<close>
  says that it won't overrun the total of 63 coefficients, and the comments on the layout
  give a DC area the contexts up to M15 = 48 and an AC area those up to 244, which is
  what \<open>handleConditioningSegment\<close> allocates. None of the loops checks a bound.

  \<^item> With the default DC conditioning (thresholds 0 and 2) the entropy-coded bytes
    D2 F1 60 make the magnitude loop of \<open>decodeSignMagnitude\<close> run up to context 35,
    so the value bits are read in context 35 + 14 = 49, outside the 49-entry area;
    \<open>stats.states[49]\<close> is \<open>undefined\<close> and \<open>decodeBit\<close> throws a \<open>TypeError\<close>.
  \<^item> With the default AC conditioning (threshold 5) the bytes 4B C6 keep the zero-run
    loop going past the 63rd coefficient, through the contexts 1, 4, 7, ... up to 247,
    outside the 245-entry area, where \<open>decodeBit\<close> throws a \<open>TypeError\<close>.
  \<^item> With the bytes 3B D1 9F FF C0 the magnitude loop of the first AC coefficient runs
    from X2_low = 189 through the contexts of the other set (from X2_high = 217 on) up to
    218, which shifts \<open>magnitude\<close> to the 32-bit value \<open>-2147483648\<close>; the value-bit
    loop \<open>while (magnitude >>= 1)\<close> then never ends, reading context 232 for ever:
    \<open>decodeACCoefficients\<close> does not return.
\<close>

theorem C10_context_index_overruns_statistics_area:
  "contextsOf (decodeDCCoefficientDelta (new_Decoder [0xD2, 0xF1, 0x60]) new_dcStats 0 0 2) =
     Some [0, 1, 2, 20, 21, 22, 23, 24, 25, 26, 27, 28, 29, 30, 31, 32, 33, 34, 35, 49] \<and>
   length (states new_dcStats) = 49 \<and>
   thrown (decodeDCCoefficientDelta (new_Decoder [0xD2, 0xF1, 0x60]) new_dcStats 0 0 2) =
     Some (TypeError ''Cannot read properties of undefined'') \<and>
   contextsOf (decodeACCoefficients (new_Decoder [0x4B, 0xC6]) new_acStats 5 1 63) =
     Some (0 # map (\<lambda>k. 3 * int k + 1) [0..<83]) \<and>
   last (0 # map (\<lambda>k. 3 * int k + 1) [0..<83]) = 247 \<and>
   length (states new_acStats) = 245 \<and>
   thrown (decodeACCoefficients (new_Decoder [0x4B, 0xC6]) new_acStats 5 1 63) =
     Some (TypeError ''Cannot read properties of undefined'') \<and>
   decodeACCoefficients (new_Decoder [0x3B, 0xD1, 0x9F, 0xFF, 0xC0]) new_acStats 5 1 63 = None"
proof -
  have 1: "contextsOf (decodeDCCoefficientDelta (new_Decoder [0xD2, 0xF1, 0x60]) new_dcStats 0 0 2) =
     Some [0, 1, 2, 20, 21, 22, 23, 24, 25, 26, 27, 28, 29, 30, 31, 32, 33, 34, 35, 49]"
    by (simp add: contextsOf_def coefficient_eval decoder_eval)
  have 2: "thrown (decodeDCCoefficientDelta (new_Decoder [0xD2, 0xF1, 0x60]) new_dcStats 0 0 2) =
     Some (TypeError ''Cannot read properties of undefined'')"
    by (simp add: thrown_def coefficient_eval decoder_eval)
  have 3: "contextsOf (decodeACCoefficients (new_Decoder [0x4B, 0xC6]) new_acStats 5 1 63) =
     Some (0 # map (\<lambda>k. 3 * int k + 1) [0..<83])"
    by (simp add: contextsOf_def coefficient_eval decoder_eval upt_rec)
  have 4: "last (0 # map (\<lambda>k. 3 * int k + 1) [0..<83]) = 247"
    by (simp add: upt_rec)
  have 5: "thrown (decodeACCoefficients (new_Decoder [0x4B, 0xC6]) new_acStats 5 1 63) =
     Some (TypeError ''Cannot read properties of undefined'')"
    by (simp add: thrown_def coefficient_eval decoder_eval)
  have 6: "decodeACCoefficients (new_Decoder [0x3B, 0xD1, 0x9F, 0xFF, 0xC0]) new_acStats 5 1 63 = None"
    by (simp add: coefficient_eval decoder_eval valueBitsLoop_hangs[where n = 245] wf_eval
        del: valueBitsLoop.simps)
  have 7: "length (states new_dcStats) = 49" "length (states new_acStats) = 245"
    by (simp_all add: new_dcStats_def new_acStats_def new_Statistics_def)
  show ?thesis
    using 1 2 3 4 5 6 7 by blast
qed

section \<open>The Huffman state machine and naive matching\<close>

lemma find_filter: "find P xs = (case filter P xs of [] \<Rightarrow> None | x # ys \<Rightarrow> Some x)"
  by (induction xs) auto

lemma startsWith_comparable:
  assumes "startsWith s a" "startsWith s b"
  shows "startsWith a b \<or> startsWith b a"
proof (cases "length a \<le> length b")
  case True
  have "take (length a) b = take (length a) (take (length b) s)"
    using assms(2) by (simp add: startsWith_def)
  also have "\<dots> = take (length a) s" using True by (simp add: min_def)
  also have "\<dots> = a" using assms(1) by (simp add: startsWith_def)
  finally show ?thesis by (simp add: startsWith_def)
next
  case False
  have "take (length b) a = take (length b) (take (length a) s)"
    using assms(1) by (simp add: startsWith_def)
  also have "\<dots> = take (length b) s" using False by (simp add: min_def)
  also have "\<dots> = b" using assms(2) by (simp add: startsWith_def)
  finally show ?thesis by (simp add: startsWith_def)
qed

lemma prefix_freeD:
  assumes "prefix_free table" "(c1, v1) \<in> set table" "(c2, v2) \<in> set table" "startsWith c2 c1"
  shows "c1 = c2"
  using assms unfolding prefix_free_def list_all_iff by force

lemma matches_same_key:
  assumes pf: "prefix_free table"
    and a: "(c1, v1) \<in> set table" "startsWith s c1"
    and b: "(c2, v2) \<in> set table" "startsWith s c2"
  shows "c1 = c2"
  using startsWith_comparable[OF a(2) b(2)] prefix_freeD[OF pf a(1) b(1)] prefix_freeD[OF pf b(1) a(1)]
  by auto

lemma filter_match_single:
  assumes pf: "prefix_free table" and d: "distinct (map fst table)"
  shows "length (filter (\<lambda>(code, v). startsWith s code) table) \<le> 1"
proof (rule ccontr)
  let ?f = "filter (\<lambda>(code, v). startsWith s code) table"
  assume "\<not> length ?f \<le> 1"
  then obtain a b rest where f: "?f = a # b # rest"
    by (cases ?f; cases "tl ?f") auto
  have "distinct (map fst ?f)" using d by (rule distinct_map_filter)
  then have ne: "fst a \<noteq> fst b" by (simp add: f)
  have "a \<in> set ?f" "b \<in> set ?f" by (simp_all add: f)
  then have "a \<in> set table" "startsWith s (fst a)" "b \<in> set table" "startsWith s (fst b)"
    by (auto simp: case_prod_beta)
  then have "fst a = fst b"
    using matches_same_key[OF pf, of "fst a" "snd a" s "fst b" "snd b"] by simp
  then show False using ne by simp
qed

lemma longestMatch_find:
  assumes pf: "prefix_free table" and d: "distinct (map fst table)"
  shows "longestMatch table s = find (\<lambda>(code, v). startsWith s code) table"
proof -
  let ?f = "filter (\<lambda>(code, v). startsWith s code) table"
  have "length ?f \<le> 1" using pf d by (rule filter_match_single)
  then have "?f = [] \<or> (\<exists>m. ?f = [m])"
    by (cases ?f; cases "tl ?f") auto
  then show ?thesis
    unfolding longestMatch_def find_filter by auto
qed


lemma find_unique:
  assumes pf: "prefix_free table" and d: "distinct (map fst table)"
    and m: "(code, v) \<in> set table" "startsWith s code"
  shows "find (\<lambda>(code, v). startsWith s code) table = Some (code, v)"
proof (cases "find (\<lambda>(code, v). startsWith s code) table")
  case None
  then show ?thesis using m by (auto simp: find_None_iff)
next
  case (Some x)
  obtain c' v' where x: "x = (c', v')" by (cases x)
  have in': "(c', v') \<in> set table" and st: "startsWith s c'"
    using Some x by (auto simp: find_Some_iff in_set_conv_nth)
  have "c' = code" using matches_same_key[OF pf in' st m] .
  moreover have "v' = v" using eq_key_imp_eq_value[OF d] in' m(1) \<open>c' = code\<close> by blast
  ultimately show ?thesis using Some x by simp
qed

lemma naive_match_None:
  assumes pf: "prefix_free table" and d: "distinct (map fst table)"
    and "find (\<lambda>(code, v). startsWith s code) table = None"
  shows "naive_match table s = ([], s)"
  using assms(3) by (subst naive_match.simps) (simp add: longestMatch_find[OF pf d])

lemma naive_match_Some:
  assumes pf: "prefix_free table" and d: "distinct (map fst table)"
    and "find (\<lambda>(code, v). startsWith s code) table = Some (code, v)" and "code \<noteq> []"
  shows "naive_match table s =
           (v # fst (naive_match table (drop (length code) s)),
            snd (naive_match table (drop (length code) s)))"
  using assms(3,4)
  by (subst naive_match.simps) (simp add: longestMatch_find[OF pf d] case_prod_beta)

lemma find_in_table:
  "find (\<lambda>(code, v). startsWith s code) table = Some (code, v) \<Longrightarrow>
   (code, v) \<in> set table \<and> startsWith s code"
  by (auto simp: find_Some_iff in_set_conv_nth)

lemma naive_match_rest_unmatched:
  assumes pf: "prefix_free table" and d: "distinct (map fst table)"
    and ne: "[] \<notin> fst ` set table"
  shows "find (\<lambda>(code, v). startsWith (snd (naive_match table s)) code) table = None"
proof (induction s rule: length_induct)
  case (1 s)
  show ?case
  proof (cases "find (\<lambda>(code, v). startsWith s code) table")
    case None
    then show ?thesis by (simp add: naive_match_None[OF pf d None])
  next
    case (Some x)
    obtain code v where x: "x = (code, v)" by (cases x)
    have m: "(code, v) \<in> set table" "startsWith s code"
      using find_in_table[OF Some[unfolded x]] by simp_all
    have c: "code \<noteq> []" using m(1) ne by force
    have "s \<noteq> []" using m(2) c by (auto simp: startsWith_def)
    then have "length (drop (length code) s) < length s" using c by simp
    then show ?thesis
      using 1 naive_match_Some[OF pf d Some[unfolded x] c] by simp
  qed
qed

lemma startsWith_append:
  assumes "startsWith s code"
  shows "startsWith (s @ t) code"
proof -
  have "length (take (length code) s) = length code"
    using assms by (simp add: startsWith_def)
  then have "length code \<le> length s" by (simp add: min_def split: if_splits)
  then show ?thesis using assms by (simp add: startsWith_def)
qed

lemma startsWith_length:
  assumes "startsWith s code"
  shows "length code \<le> length s"
proof -
  have "length (take (length code) s) = length code"
    using assms by (simp add: startsWith_def)
  then show ?thesis by (simp add: min_def split: if_splits)
qed

lemma naive_match_append:
  assumes pf: "prefix_free table" and d: "distinct (map fst table)"
    and ne: "[] \<notin> fst ` set table"
  shows "naive_match table (s @ t) =
           (fst (naive_match table s) @ fst (naive_match table (snd (naive_match table s) @ t)),
            snd (naive_match table (snd (naive_match table s) @ t)))"
proof (induction s rule: length_induct)
  case (1 s)
  show ?case
  proof (cases "find (\<lambda>(code, v). startsWith s code) table")
    case None
    then show ?thesis by (simp add: naive_match_None[OF pf d None])
  next
    case (Some x)
    obtain code v where x: "x = (code, v)" by (cases x)
    have m: "(code, v) \<in> set table" "startsWith s code"
      using find_in_table[OF Some[unfolded x]] by simp_all
    have c: "code \<noteq> []" using m(1) ne by force
    have "s \<noteq> []" using m(2) c by (auto simp: startsWith_def)
    then have less: "length (drop (length code) s) < length s" using c by simp
    have f2: "find (\<lambda>(code, v). startsWith (s @ t) code) table = Some (code, v)"
      using find_unique[OF pf d m(1) startsWith_append[OF m(2)]] .
    have dr: "drop (length code) (s @ t) = drop (length code) s @ t"
      using startsWith_length[OF m(2)] by simp
    let ?s' = "drop (length code) s"
    have IH: "naive_match table (?s' @ t) =
           (fst (naive_match table ?s') @ fst (naive_match table (snd (naive_match table ?s') @ t)),
            snd (naive_match table (snd (naive_match table ?s') @ t)))"
      using 1 less by blast
    have a: "naive_match table (s @ t) =
               (v # fst (naive_match table (?s' @ t)), snd (naive_match table (?s' @ t)))"
      using naive_match_Some[OF pf d f2 c] unfolding dr .
    have b: "naive_match table s = (v # fst (naive_match table ?s'), snd (naive_match table ?s'))"
      using naive_match_Some[OF pf d Some[unfolded x] c] .
    show ?thesis
      unfolding a b by (subst (1 2) IH) simp
  qed
qed

lemma buildEmit_naive:
  assumes pf: "prefix_free table" and d: "distinct (map fst table)"
    and ne: "[] \<notin> fst ` set table"
  shows "\<exists>fb'. buildEmit table pl s em fb =
           Some (em @ fst (naive_match table s), fb', snd (naive_match table s))"
proof (induction s arbitrary: em fb rule: length_induct)
  case (1 s)
  show ?case
  proof (cases "find (\<lambda>(code, v). startsWith s code) table")
    case None
    then show ?thesis
      by (subst buildEmit.simps) (simp add: naive_match_None[OF pf d None])
  next
    case (Some x)
    obtain code v where x: "x = (code, v)" by (cases x)
    have m: "(code, v) \<in> set table" "startsWith s code"
      using find_in_table[OF Some[unfolded x]] by simp_all
    have c: "code \<noteq> []" using m(1) ne by force
    have "s \<noteq> []" using m(2) c by (auto simp: startsWith_def)
    then have less: "length (drop (length code) s) < length s" using c by simp
    from 1 less obtain fb' where
      "buildEmit table pl (drop (length code) s) (em @ [v])
         (if em = [] then Some (int (length code) - pl) else fb) =
       Some ((em @ [v]) @ fst (naive_match table (drop (length code) s)), fb',
             snd (naive_match table (drop (length code) s)))"
      by blast
    then show ?thesis
      by (subst buildEmit.simps)
        (simp add: Some x naive_match_Some[OF pf d Some[unfolded x] c])
  qed
qed

lemma map_get_None: "map_get m k = None \<longleftrightarrow> k \<notin> fst ` set m"
  by (simp add: map_get_def map_of_eq_None_iff)

lemma addPrefix_numbered:
  assumes "numbered acc"
  shows "numbered (addPrefix p acc) \<and> fst ` set (fst (addPrefix p acc)) = insert p (fst ` set (fst acc))"
proof -
  obtain ps k where acc: "acc = (ps, k)" by (cases acc)
  show ?thesis
  proof (cases "map_get ps p = None")
    case True
    then have fresh: "p \<notin> fst ` set ps" by (simp add: map_get_None)
    have "addPrefix p acc = (ps @ [(p, k)], k + 1)"
      using True by (simp add: addPrefix_def acc map_set_fresh[OF fresh])
    then show ?thesis using assms fresh by (auto simp: numbered_def acc)
  next
    case False
    then have "p \<in> fst ` set ps" by (simp add: map_get_None)
    moreover have "addPrefix p acc = acc" using False by (simp add: addPrefix_def acc)
    ultimately show ?thesis using assms by (auto simp: acc)
  qed
qed

lemma fold_numbered:
  assumes step: "\<And>x acc. numbered acc \<Longrightarrow>
                   numbered (F x acc) \<and> fst ` set (fst (F x acc)) = G x \<union> fst ` set (fst acc)"
    and "numbered acc"
  shows "numbered (fold F xs acc) \<and>
         fst ` set (fst (fold F xs acc)) = (\<Union>x \<in> set xs. G x) \<union> fst ` set (fst acc)"
  using assms(2)
proof (induction xs arbitrary: acc)
  case Nil
  then show ?case by simp
next
  case (Cons x xs)
  from step[OF Cons.prems, of x]
  have n: "numbered (F x acc)" and k: "fst ` set (fst (F x acc)) = G x \<union> fst ` set (fst acc)"
    by blast+
  from Cons.IH[OF n]
  have a: "numbered (fold F xs (F x acc))"
    and b: "fst ` set (fst (fold F xs (F x acc))) = (\<Union>x \<in> set xs. G x) \<union> fst ` set (fst (F x acc))"
    by blast+
  show ?case using a b unfolding k by auto
qed

lemma fold_addPrefix_numbered:
  assumes "numbered acc"
  shows "numbered (fold (\<lambda>i. addPrefix (take i key)) [1..<length key] acc) \<and>
         fst ` set (fst (fold (\<lambda>i. addPrefix (take i key)) [1..<length key] acc))
           = properPrefixes key \<union> fst ` set (fst acc)"
proof -
  have "numbered (fold (\<lambda>i. addPrefix (take i key)) [1..<length key] acc) \<and>
        fst ` set (fst (fold (\<lambda>i. addPrefix (take i key)) [1..<length key] acc))
          = (\<Union>i \<in> set [1..<length key]. {take i key}) \<union> fst ` set (fst acc)"
  proof (rule fold_numbered[OF _ assms])
    fix x acc assume "numbered acc"
    from addPrefix_numbered[OF this, of "take x key"]
    show "numbered (addPrefix (take x key) acc) \<and>
          fst ` set (fst (addPrefix (take x key) acc)) = {take x key} \<union> fst ` set (fst acc)"
      by simp
  qed
  moreover have "(\<Union>i \<in> set [1..<length key]. {take i key}) = properPrefixes key"
    by (auto simp: properPrefixes_def)
  ultimately show ?thesis by simp
qed

lemma numberPrefixes_numbered:
  "numbered (numberPrefixes table) \<and>
   fst ` set (fst (numberPrefixes table)) = insert [] (\<Union>key \<in> fst ` set table. properPrefixes key)"
proof -
  have n0: "numbered ([([], 0)], 1)" by (simp add: numbered_def)
  have "numbered (fold (\<lambda>key. fold (\<lambda>i. addPrefix (take i key)) [1..<length key]) (map fst table)
                   ([([], 0)], 1)) \<and>
        fst ` set (fst (fold (\<lambda>key. fold (\<lambda>i. addPrefix (take i key)) [1..<length key])
                          (map fst table) ([([], 0)], 1)))
          = (\<Union>key \<in> set (map fst table). properPrefixes key) \<union> fst ` set (fst ([([], 0::nat)], 1::nat))"
    by (rule fold_numbered[OF _ n0]) (rule fold_addPrefix_numbered)
  then show ?thesis unfolding numberPrefixes_def by simp
qed

lemma addPrefix_mono: "set (fst acc) \<subseteq> set (fst (addPrefix p acc))"
proof -
  obtain ps k where acc: "acc = (ps, k)" by (cases acc)
  show ?thesis
  proof (cases "map_get ps p = None")
    case True
    then have fresh: "p \<notin> fst ` set ps" by (simp add: map_get_None)
    show ?thesis using True by (auto simp: addPrefix_def acc map_set_fresh[OF fresh])
  next
    case False
    then show ?thesis by (simp add: addPrefix_def acc)
  qed
qed

lemma fold_mono:
  assumes "\<And>x acc. set (fst acc) \<subseteq> set (fst (F x acc))"
  shows "set (fst (acc :: (string, nat) js_map \<times> nat)) \<subseteq> set (fst (fold F xs acc))"
proof (induction xs arbitrary: acc)
  case Nil
  then show ?case by simp
next
  case (Cons x xs)
  have "set (fst acc) \<subseteq> set (fst (F x acc))" by (rule assms)
  also have "\<dots> \<subseteq> set (fst (fold F xs (F x acc)))" by (rule Cons.IH)
  finally show ?case by simp
qed

lemma numberPrefixes_root: "([], 0) \<in> set (fst (numberPrefixes table))"
proof -
  have "set (fst ([([], 0::nat)], 1::nat)) \<subseteq> set (fst (numberPrefixes table))"
    unfolding numberPrefixes_def
    by (rule fold_mono, rule fold_mono, rule addPrefix_mono)
  then show ?thesis by auto
qed

lemma those_map:
  assumes "\<And>x. x \<in> set xs \<Longrightarrow> f x = Some (g x)"
  shows "those (map f xs) = Some (map g xs)"
  using assms by (induction xs) simp_all

lemma buildTransition_naive:
  assumes pf: "prefix_free table" and d: "distinct (map fst table)"
    and ne: "[] \<notin> fst ` set table"
  shows "\<exists>fb. buildTransition table ps p inp =
           Some (fst (naive_match table (p @ inp)), fb, map_get ps (snd (naive_match table (p @ inp))))"
proof -
  obtain fb where "buildEmit table (int (length p)) (p @ inp) [] None =
      Some ([] @ fst (naive_match table (p @ inp)), fb, snd (naive_match table (p @ inp)))"
    using buildEmit_naive[OF pf d ne] by blast
  then show ?thesis by (simp add: buildTransition_def)
qed

lemma buildState_good:
  assumes pf: "prefix_free table" and d: "distinct (map fst table)"
    and ne: "[] \<notin> fst ` set table"
  shows "\<exists>st. buildState table ps n p = Some st \<and> good_state table ps p st"
proof -
  define g where "g = (\<lambda>i. the (buildTransition table ps p (inputBits 4 i)))"
  have g: "buildTransition table ps p (inputBits 4 i) = Some (g i)"
    and g1: "fst (g i) = fst (naive_match table (p @ inputBits 4 i))"
    and g2: "snd (snd (g i)) = map_get ps (snd (naive_match table (p @ inputBits 4 i)))" for i
    using buildTransition_naive[OF pf d ne, of ps p "inputBits 4 i"] by (auto simp: g_def)
  have th: "those (map (\<lambda>i. buildTransition table ps p (inputBits 4 i)) [0..<16])
              = Some (map g [0..<16])"
    by (rule those_map) (rule g)
  let ?st = "fillState (Some n) (Some p) (map g [0..<16])"
  have b: "buildState table ps n p = Some ?st"
    by (simp only: buildState_def th option.map)
  have "good_state table ps p ?st"
    unfolding good_state_def
  proof (intro allI impI)
    fix i :: nat assume i: "i < 16"
    have e: "slotAt (emit ?st) (int i) = Some (fst (g i))"
      using i by (simp add: fillState_def slotAt_def case_prod_beta del: upt.simps)
    have t: "slotAt (goto ?st) (int i) = snd (snd (g i))"
      using i by (simp add: fillState_def slotAt_def case_prod_beta del: upt.simps)
    show "slotAt (emit ?st) (int i) = Some (fst (naive_match table (p @ inputBits 4 i))) \<and>
          slotAt (goto ?st) (int i) = map_get ps (snd (naive_match table (p @ inputBits 4 i)))"
      using e t by (simp add: g1 g2)
  qed
  then show ?thesis using b by blast
qed

lemma buildSpecialState_Some:
  assumes pf: "prefix_free table" and d: "distinct (map fst table)"
    and ne: "[] \<notin> fst ` set table"
  shows "\<exists>st. buildSpecialState table ps nBits = Some st"
proof -
  define g where "g = (\<lambda>i. the (buildTransition table ps [] (inputBits nBits i)))"
  have g: "buildTransition table ps [] (inputBits nBits i) = Some (g i)" for i
    using buildTransition_naive[OF pf d ne, of ps "[]" "inputBits nBits i"] by (auto simp: g_def)
  have th: "those (map (\<lambda>i. buildTransition table ps [] (inputBits nBits i)) [0..<2 ^ nBits])
              = Some (map g [0..<2 ^ nBits])"
    by (rule those_map) (rule g)
  show ?thesis by (simp only: buildSpecialState_def th option.map) blast
qed

lemma fold_putState:
  assumes "\<And>p n. (p, n) \<in> set qs \<Longrightarrow> n < length arr \<and> B n p = Some (S n p)"
    and "distinct (map snd qs)"
  shows "\<exists>arr'. fold (\<lambda>(p, n). putState n (B n p)) qs (Some arr) = Some arr' \<and>
           length arr' = length arr \<and>
           (\<forall>(p, n) \<in> set qs. arr' ! n = Some (S n p)) \<and>
           (\<forall>j. j \<notin> snd ` set qs \<longrightarrow> arr' ! j = arr ! j)"
  using assms
proof (induction qs arbitrary: arr)
  case Nil
  then show ?case by simp
next
  case (Cons q qs)
  obtain p n where q: "q = (p, n)" by (cases q)
  have hd: "n < length arr" "B n p = Some (S n p)" using Cons.prems(1)[of p n] q by simp_all
  let ?arr = "arr[n := Some (S n p)]"
  have step: "putState n (B n p) (Some arr) = Some ?arr" by (simp add: putState_def hd)
  have rest: "\<And>p n. (p, n) \<in> set qs \<Longrightarrow> n < length ?arr \<and> B n p = Some (S n p)"
  proof -
    fix p' n' assume "(p', n') \<in> set qs"
    then have "(p', n') \<in> set (q # qs)" by simp
    from Cons.prems(1)[OF this] show "n' < length ?arr \<and> B n' p' = Some (S n' p')" by simp
  qed
  have dist: "distinct (map snd qs)" and fresh: "n \<notin> snd ` set qs"
    using Cons.prems(2) q by auto
  from Cons.IH[OF rest dist] obtain arr' where
    f: "fold (\<lambda>(p, n). putState n (B n p)) qs (Some ?arr) = Some arr'"
    and l: "length arr' = length ?arr"
    and a: "\<forall>(p, n) \<in> set qs. arr' ! n = Some (S n p)"
    and o: "\<forall>j. j \<notin> snd ` set qs \<longrightarrow> arr' ! j = ?arr ! j"
    by blast
  have "arr' ! n = Some (S n p)" using o fresh hd(1) by simp
  moreover have "\<forall>j. j \<notin> snd ` set (q # qs) \<longrightarrow> arr' ! j = arr ! j"
    using o q by auto
  ultimately show ?case
    using f l a by (auto simp: q step)
qed

lemma prepareDecoder_good:
  assumes pf: "prefix_free table" and d: "distinct (map fst table)"
    and ne: "[] \<notin> fst ` set table"
  shows "\<exists>decoder. prepareDecoder table = Some decoder \<and> good_decoder table decoder"
proof -
  obtain ps k where np: "numberPrefixes table = (ps, k)" by (cases "numberPrefixes table")
  have num: "map snd ps = [0..<k]"
    using numberPrefixes_numbered[of table] by (simp add: np numbered_def)
  have dist: "distinct (map snd ps)" unfolding num by simp
  have bound: "n < k" if "(p, n) \<in> set ps" for p n
  proof -
    have "n \<in> set (map snd ps)" using that by force
    then show ?thesis unfolding num by simp
  qed
  define S where "S = (\<lambda>n p. the (buildState table ps n p))"
  have S: "buildState table ps n p = Some (S n p)" and good: "good_state table ps p (S n p)" for n p
    using buildState_good[OF pf d ne, of ps n p] by (auto simp: S_def)
  have "\<exists>arr'. fold (\<lambda>(p, n). putState n (buildState table ps n p)) ps
                 (Some (replicate (k + 3) None)) = Some arr' \<and>
           length arr' = length (replicate (k + 3) (None :: 'a dfa_state option)) \<and>
           (\<forall>(p, n) \<in> set ps. arr' ! n = Some (S n p)) \<and>
           (\<forall>j. j \<notin> snd ` set ps \<longrightarrow> arr' ! j = replicate (k + 3) None ! j)"
  proof (rule fold_putState[OF _ dist])
    fix p n assume "(p, n) \<in> set ps"
    then have "n < k" by (rule bound)
    then show "n < length (replicate (k + 3) (None :: 'a dfa_state option)) \<and>
               buildState table ps n p = Some (S n p)"
      using S by simp
  qed
  then obtain arr1 where
    f1: "fold (\<lambda>(p, n). putState n (buildState table ps n p)) ps (Some (replicate (k + 3) None))
           = Some arr1"
    and l1: "length arr1 = k + 3"
    and a1: "\<forall>(p, n) \<in> set ps. arr1 ! n = Some (S n p)"
    by auto
  obtain sp1 sp2 sp3 where
    sp: "buildSpecialState table ps 1 = Some sp1" "buildSpecialState table ps 2 = Some sp2"
        "buildSpecialState table ps 3 = Some sp3"
    using buildSpecialState_Some[OF pf d ne] by blast
  let ?dec = "arr1[k + 2 := Some sp1, k + 1 := Some sp2, k := Some sp3]"
  have sp': "buildSpecialState table ps (Suc 0) = Some sp1" using sp(1) by simp
  have pd: "prepareDecoder table = Some ?dec"
    by (simp add: prepareDecoder_def np f1 putState_def sp sp')
  have "good_decoder table ?dec"
    unfolding good_decoder_def np fst_conv
  proof (intro ballI, clarify)
    fix p n assume in': "(p, n) \<in> set ps"
    then have n: "n < k" by (rule bound)
    have "?dec ! n = Some (S n p)" using a1 in' n by auto
    then have "slotAt ?dec (int n) = Some (S n p)" using n l1 by (simp add: slotAt_def)
    then show "\<exists>st. slotAt ?dec (int n) = Some st \<and> good_state table ps p st"
      using good by blast
  qed
  then show ?thesis using pd by blast
qed

lemma upt_4: "[0..<4] = [0, 1, 2, 3]"
  by (simp add: upt_rec)

lemma upt_8: "[0..<8] = [0, 1, 2, 3, 4, 5, 6, 7]"
  by (simp add: upt_rec)

lemma replicate_small: "replicate 2 c = [c, c]" "replicate 3 c = [c, c, c]"
  by (simp_all add: numeral_eq_Suc)

lemma inputBits_4:
  assumes "i < 16"
  shows "inputBits 4 i = map (\<lambda>k. if bit (int i) (3 - k) then CHR ''1'' else CHR ''0'') [0..<4]"
proof -
  have "\<forall>i \<in> set [0..<16].
          inputBits 4 i = map (\<lambda>k. if bit (int i) (3 - k) then CHR ''1'' else CHR ''0'') [0, 1, 2, 3]"
    by (simp add: upt_rec inputBits_def padStart_def toString2_def
        binaryDigits_small binaryDigits_big replicate_small)
  then show ?thesis using assms by (simp add: upt_4)
qed

lemma byteBits_nibbles:
  assumes "0 \<le> v" "v < 256"
  shows "byteBits v = inputBits 4 (nat (v div 16)) @ inputBits 4 (nat (v mod 16))"
proof -
  have hi: "nat (v div 16) < 16" and lo: "nat (v mod 16) < 16" using assms by auto
  have d: "int (nat (v div 16)) = drop_bit 4 v" using assms by (simp add: drop_bit_eq_div)
  have m: "int (nat (v mod 16)) = take_bit 4 v" using assms by (simp add: take_bit_eq_mod)
  show ?thesis
    unfolding inputBits_4[OF hi] inputBits_4[OF lo] d m byteBits_def upt_4 upt_8
    by (simp add: bit_drop_bit_eq bit_take_bit_iff)
qed

lemma nibble_values:
  assumes "0 \<le> v" "v < 256"
  shows "js_shr v 4 = v div 16" and "js_and v 0xF = v mod 16"
proof -
  show "js_shr v 4 = v div 16" using js_shr_small[of v 4] assms by simp
  show "js_and v 0xF = v mod 16" using js_and_mask[of v 4] assms by simp
qed

lemma find_None_unmatched:
  "find (\<lambda>(code, v). startsWith s code) table = None \<Longrightarrow> (code, v) \<in> set table \<Longrightarrow>
   \<not> startsWith s code"
  by (auto simp: find_None_iff)

lemma prefix_state:
  assumes "(c, v) \<in> set table" "startsWith c r" "r \<noteq> c"
  shows "r \<in> fst ` set (fst (numberPrefixes table))"
proof (cases "r = []")
  case True
  then show ?thesis using numberPrefixes_root[of table] by force
next
  case False
  have t: "take (length r) c = r" using assms(2) by (simp add: startsWith_def)
  have le: "length r \<le> length c" using assms(2) by (rule startsWith_length)
  have "length r \<noteq> length c" using t assms(3) by auto
  then have "length r < length c" using le by simp
  moreover have "1 \<le> length r" using False by (cases r) auto
  ultimately have "r \<in> properPrefixes c"
    unfolding properPrefixes_def using t by (intro image_eqI[of _ _ "length r"]) auto
  moreover have "c \<in> fst ` set table" using assms(1) by force
  ultimately show ?thesis
    using numberPrefixes_numbered[of table] by blast
qed

lemma dead_rest:
  assumes pf: "prefix_free table" and d: "distinct (map fst table)"
    and ne: "[] \<notin> fst ` set table"
    and r: "r = snd (naive_match table x)"
    and dead: "r \<notin> fst ` set (fst (numberPrefixes table))"
  shows "naive_match table (x @ t) = (fst (naive_match table x), r @ t)"
    and "\<not> is_code_prefix table (r @ t)"
proof -
  have un: "find (\<lambda>(code, v). startsWith r code) table = None"
    unfolding r by (rule naive_match_rest_unmatched[OF pf d ne])
  have no_prefix: "\<not> startsWith c r" if "(c, v) \<in> set table" for c v
  proof
    assume sw: "startsWith c r"
    have "r \<noteq> c"
    proof
      assume "r = c"
      then have "startsWith r c" by (simp add: startsWith_def)
      then show False using find_None_unmatched[OF un that] by simp
    qed
    from prefix_state[OF that sw this] dead show False by simp
  qed
  have "find (\<lambda>(code, v). startsWith (r @ t) code) table = None"
  proof (rule ccontr)
    assume "find (\<lambda>(code, v). startsWith (r @ t) code) table \<noteq> None"
    then obtain c v where f: "find (\<lambda>(code, v). startsWith (r @ t) code) table = Some (c, v)"
      by auto
    have in': "(c, v) \<in> set table" and sw: "startsWith (r @ t) c"
      using find_in_table[OF f] by simp_all
    have "startsWith (r @ t) r" by (simp add: startsWith_def)
    from startsWith_comparable[OF sw this]
    show False using find_None_unmatched[OF un in'] no_prefix[OF in'] by blast
  qed
  then have "naive_match table (r @ t) = ([], r @ t)"
    by (rule naive_match_None[OF pf d])
  then show "naive_match table (x @ t) = (fst (naive_match table x), r @ t)"
    using naive_match_append[OF pf d ne, of x t] by (simp add: r)
  show "\<not> is_code_prefix table (r @ t)"
  proof
    assume "is_code_prefix table (r @ t)"
    then obtain c v where in': "(c, v) \<in> set table" and sw: "startsWith c (r @ t)"
      by (auto simp: is_code_prefix_def list_ex_iff)
    have "take (length r) c = r"
    proof -
      have "take (length r) (take (length (r @ t)) c) = take (length r) (r @ t)"
        using sw by (simp add: startsWith_def)
      then show ?thesis by (simp add: min_def)
    qed
    then have "startsWith c r" by (simp add: startsWith_def)
    then show False using no_prefix[OF in'] by simp
  qed
qed

lemma live_rest:
  assumes pf: "prefix_free table" and d: "distinct (map fst table)"
    and r: "r = snd (naive_match table x)" and x: "x \<noteq> []"
    and live: "r \<in> fst ` set (fst (numberPrefixes table))"
  shows "is_code_prefix table r"
proof -
  from live numberPrefixes_numbered[of table]
  consider "r = []" | key where "key \<in> fst ` set table" "r \<in> properPrefixes key" by blast
  then show ?thesis
  proof cases
    case 1
    have "table \<noteq> []"
    proof
      assume "table = []"
      then have "find (\<lambda>(code, v). startsWith x code) table = None" by simp
      then have "naive_match table x = ([], x)" by (rule naive_match_None[OF pf d])
      then show False using r 1 x by simp
    qed
    then obtain c v where "(c, v) \<in> set table" by (cases table) auto
    then show ?thesis unfolding is_code_prefix_def list_ex_iff 1
      by (intro bexI[of _ "(c, v)"]) (simp_all add: startsWith_def)
  next
    case 2
    then obtain v i where in': "(key, v) \<in> set table" and i: "r = take i key" "i < length key"
      by (auto simp: properPrefixes_def)
    have "startsWith key r" using i by (simp add: startsWith_def min_def)
    then show ?thesis unfolding is_code_prefix_def list_ex_iff
      using in' by (intro bexI[of _ "(key, v)"]) simp_all
  qed
qed

lemma bufferBits_split:
  assumes "start \<le> m" "m \<le> e"
  shows "bufferBits buffer start e = bufferBits buffer start m @ bufferBits buffer m e"
proof -
  have "[start..<e] = [start..<m] @ [m..<e]"
    using assms by (metis le_Suc_ex upt_add_eq_append)
  then show ?thesis by (simp add: bufferBits_def)
qed

lemma bufferBits_byte:
  "bufferBits buffer m (m + 1) = byteBits (byteAt buffer m)"
  by (simp add: bufferBits_def)

lemma halfByte_good:
  assumes gd: "good_decoder table decoder"
    and st: "(p, n) \<in> set (fst (numberPrefixes table))" and i: "i < 16"
  shows "halfByte (slotAt decoder (int n)) (int i) result =
           Inr (result @ fst (naive_match table (p @ inputBits 4 i)),
                map_get (fst (numberPrefixes table)) (snd (naive_match table (p @ inputBits 4 i))))"
proof -
  obtain s where s: "slotAt decoder (int n) = Some s"
    and g: "good_state table (fst (numberPrefixes table)) p s"
    using gd st unfolding good_decoder_def by blast
  show ?thesis
    using g i unfolding good_state_def by (simp add: halfByte_def s)
qed

lemma decodeBufferLoop_naive:
  assumes pf: "prefix_free table" and d: "distinct (map fst table)"
    and ne: "[] \<notin> fst ` set table" and gd: "good_decoder table decoder"
  shows "start \<le> position \<Longrightarrow> position \<le> end' \<Longrightarrow>
         naive_match table (bufferBits buffer start position) = (result, p) \<Longrightarrow>
         (p, n) \<in> set (fst (numberPrefixes table)) \<Longrightarrow>
         decodeBufferLoop buffer end' decoder position result (slotAt decoder (int n)) =
           (if Suc position < end' \<and>
               \<not> is_code_prefix table (snd (naive_match table (bufferBits buffer start (end' - 1))))
            then Inl (Error ''Invalid input to Huffman decoder'')
            else Inr (fst (naive_match table (bufferBits buffer start end'))))"
proof (induction "end' - position" arbitrary: position result p n)
  case 0
  then have "position = end'" by simp
  then show ?case using 0 by (subst decodeBufferLoop.simps) simp
next
  case (Suc k)
  let ?ps = "fst (numberPrefixes table)"
  let ?E = "Inl (Error ''Invalid input to Huffman decoder'') :: js_error + 'a list"
  let ?B = "bufferBits buffer start"
  let ?dead = "\<not> is_code_prefix table (snd (naive_match table (?B (end' - 1))))"
  have lt: "position < end'" using Suc.hyps(2) by simp
  let ?v = "byteAt buffer position"
  have v: "0 \<le> ?v" "?v < 256" using byteAt_range[of buffer position] by simp_all
  define hi where "hi = nat (?v div 16)"
  define lo where "lo = nat (?v mod 16)"
  have hi: "hi < 16" "js_shr ?v 4 = int hi" and lo: "lo < 16" "js_and ?v 0xF = int lo"
    using v nibble_values[OF v] by (auto simp: hi_def lo_def)
  let ?x1 = "?B position @ inputBits 4 hi"
  let ?x2 = "?B position @ inputBits 4 hi @ inputBits 4 lo"
  have B1: "?B (Suc position) = ?x2"
  proof -
    have "?B (Suc position) = ?B position @ bufferBits buffer position (Suc position)"
      by (rule bufferBits_split[OF Suc.prems(1)]) simp
    then show ?thesis
      using bufferBits_byte[of buffer position]
      unfolding byteBits_nibbles[OF v] hi_def lo_def by simp
  qed
  define s1 where "s1 = fst (naive_match table (p @ inputBits 4 hi))"
  define r1 where "r1 = snd (naive_match table (p @ inputBits 4 hi))"
  have nm1: "naive_match table ?x1 = (result @ s1, r1)"
    using naive_match_append[OF pf d ne, of "?B position" "inputBits 4 hi"]
    by (simp add: Suc.prems(3) s1_def r1_def)
  have h1: "halfByte (slotAt decoder (int n)) (int hi) result = Inr (result @ s1, map_get ?ps r1)"
    unfolding s1_def r1_def by (rule halfByte_good[OF gd Suc.prems(4) hi(1)])
  have later: "\<exists>t. ?B e = ?B m @ t" if "start \<le> m" "m \<le> e" for m e
    using bufferBits_split[OF that, of buffer] by blast
  show ?case
  proof (cases "map_get ?ps r1")
    case None
    then have dead: "r1 \<notin> fst ` set ?ps" by (simp add: map_get_None)
    have r1': "r1 = snd (naive_match table ?x1)" by (simp add: nm1)
    have loop: "decodeBufferLoop buffer end' decoder position result (slotAt decoder (int n)) =
                  (if Suc position < end' then ?E else Inr (result @ s1))"
      using lt by (subst decodeBufferLoop.simps) (simp add: Let_def hi h1 None)
    show ?thesis
    proof (cases "Suc position < end'")
      case True
      then have a: "start \<le> Suc position" "Suc position \<le> end' - 1"
        using Suc.prems(1) by simp_all
      obtain t where "?B (end' - 1) = ?B (Suc position) @ t"
        using later[OF a] by blast
      then have "?B (end' - 1) = ?x1 @ (inputBits 4 lo @ t)" by (simp add: B1)
      then have "?dead"
        using dead_rest[OF pf d ne r1' dead, of "inputBits 4 lo @ t"] by simp
      then show ?thesis using True loop by simp
    next
      case False
      then have "end' = Suc position" using lt by simp
      then have "?B end' = ?x1 @ inputBits 4 lo" by (simp add: B1)
      then have "fst (naive_match table (?B end')) = result @ s1"
        using dead_rest(1)[OF pf d ne r1' dead, of "inputBits 4 lo"] nm1 by simp
      then show ?thesis using False loop by simp
    qed
  next
    case (Some g1)
    then have st1: "(r1, g1) \<in> set ?ps" by (simp add: map_get_def map_of_SomeD)
    define s2 where "s2 = fst (naive_match table (r1 @ inputBits 4 lo))"
    define r2 where "r2 = snd (naive_match table (r1 @ inputBits 4 lo))"
    have nm2: "naive_match table ?x2 = ((result @ s1) @ s2, r2)"
      using naive_match_append[OF pf d ne, of ?x1 "inputBits 4 lo"]
      by (simp add: nm1 s2_def r2_def)
    have h2: "halfByte (slotAt decoder (int g1)) (int lo) (result @ s1)
                = Inr ((result @ s1) @ s2, map_get ?ps r2)"
      unfolding s2_def r2_def by (rule halfByte_good[OF gd st1 lo(1)])
    show ?thesis
    proof (cases "map_get ?ps r2")
      case None
      then have dead: "r2 \<notin> fst ` set ?ps" by (simp add: map_get_None)
      have r2': "r2 = snd (naive_match table ?x2)" by (simp add: nm2)
      have loop: "decodeBufferLoop buffer end' decoder position result (slotAt decoder (int n)) =
                    (if Suc position < end' then ?E else Inr ((result @ s1) @ s2))"
        using lt by (subst decodeBufferLoop.simps) (simp add: Let_def hi lo h1 h2 Some None)
      show ?thesis
      proof (cases "Suc position < end'")
        case True
        then have a: "start \<le> Suc position" "Suc position \<le> end' - 1"
          using Suc.prems(1) by simp_all
        obtain t where "?B (end' - 1) = ?x2 @ t"
          using later[OF a] unfolding B1 by blast
        then have "?dead"
          using dead_rest[OF pf d ne r2' dead, of t] by simp
        then show ?thesis using True loop by simp
      next
        case False
        then have "end' = Suc position" using lt by simp
        then have "?B end' = ?x2" by (simp add: B1)
        then have "fst (naive_match table (?B end')) = (result @ s1) @ s2"
          using nm2 by simp
        then show ?thesis using False loop by simp
      qed
    next
      case (Some g2)
      then have st2: "(r2, g2) \<in> set ?ps" by (simp add: map_get_def map_of_SomeD)
      have loop: "decodeBufferLoop buffer end' decoder position result (slotAt decoder (int n)) =
                    decodeBufferLoop buffer end' decoder (Suc position) ((result @ s1) @ s2)
                      (slotAt decoder (int g2))"
        using lt
        by (subst decodeBufferLoop.simps) (simp add: Let_def hi lo h1 h2 \<open>map_get ?ps r1 = Some g1\<close> Some)
      have k: "k = end' - (Suc position)" using Suc.hyps(2) by simp
      have nmB: "naive_match table (?B (Suc position)) = ((result @ s1) @ s2, r2)"
        using nm2 by (simp add: B1)
      have IH: "decodeBufferLoop buffer end' decoder (Suc position) ((result @ s1) @ s2)
                  (slotAt decoder (int g2)) =
                (if Suc (Suc position) < end' \<and> ?dead then ?E
                 else Inr (fst (naive_match table (?B end'))))"
        using Suc.hyps(1)[OF k _ _ nmB st2] Suc.prems(1) lt by simp
      have "\<not> ?dead" if "Suc (Suc position) = end'"
      proof -
        have e: "end' - 1 = Suc position" using that by simp
        have "?x2 \<noteq> []" using inputBits_4[OF lo(1)] by (simp add: upt_4)
        moreover have "r2 = snd (naive_match table ?x2)" by (simp add: nm2)
        moreover have "r2 \<in> fst ` set ?ps" using st2 by force
        ultimately have "is_code_prefix table r2"
          using live_rest[OF pf d, of r2 ?x2] by blast
        then show ?thesis unfolding e using nmB by simp
      qed
      then show ?thesis unfolding loop IH by auto
    qed
  qed
qed

lemma naive_match_Nil:
  assumes pf: "prefix_free table" and d: "distinct (map fst table)"
    and ne: "[] \<notin> fst ` set table"
  shows "naive_match table [] = ([], [])"
proof -
  have "find (\<lambda>(code, v). startsWith [] code) table = None"
    using ne by (force simp: find_None_iff startsWith_def)
  then show ?thesis by (rule naive_match_None[OF pf d])
qed

lemma decodeBuffer_naive:
  assumes pf: "prefix_free table" and d: "distinct (map fst table)"
    and ne: "[] \<notin> fst ` set table" and gd: "good_decoder table decoder"
  shows "decodeBuffer buffer start end' decoder =
           (if start + 1 < end' \<and>
               \<not> is_code_prefix table (snd (naive_match table (bufferBits buffer start (end' - 1))))
            then Inl (Error ''Invalid input to Huffman decoder'')
            else Inr (naive_decode table (bufferBits buffer start end')))"
proof (cases "start \<le> end'")
  case True
  have 0: "naive_match table (bufferBits buffer start start) = ([], [])"
    by (simp add: bufferBits_def naive_match_Nil[OF pf d ne])
  have "decodeBufferLoop buffer end' decoder start [] (slotAt decoder (int 0)) =
           (if Suc start < end' \<and>
               \<not> is_code_prefix table (snd (naive_match table (bufferBits buffer start (end' - 1))))
            then Inl (Error ''Invalid input to Huffman decoder'')
            else Inr (fst (naive_match table (bufferBits buffer start end'))))"
    by (rule decodeBufferLoop_naive[OF pf d ne gd le_refl True 0 numberPrefixes_root])
  then show ?thesis by (simp add: decodeBuffer_def naive_decode_def)
next
  case False
  then have "bufferBits buffer start end' = []" by (simp add: bufferBits_def)
  moreover have "decodeBufferLoop buffer end' decoder start [] (slotAt decoder 0) = Inr []"
    using False by (subst decodeBufferLoop.simps) simp
  ultimately show ?thesis
    using False by (simp add: decodeBuffer_def naive_decode_def naive_match_Nil[OF pf d ne])
qed

lemmas naive_eval =
  naive_decode_def naive_match.simps longestMatch_def longer_def startsWith_def is_code_prefix_def
  bufferBits_def byteBits_def byteAt_def upt_8 Let_def

lemma test_table_ok:
  "prefix_free test_table \<and> distinct (map fst test_table) \<and> [] \<notin> fst ` set test_table"
  by (simp add: prefix_free_def test_table_def startsWith_def)

lemma test_naive:
  "naive_decode test_table (bufferBits [0x00, 0x4F] 0 2) = [1, 1, 1, 1, 2, 3]"
  by (simp add: naive_eval test_table_def upt_rec)

lemma test_prefix:
  "is_code_prefix test_table (snd (naive_match test_table (bufferBits [0x00, 0x4F] 0 1)))"
  by (simp add: naive_eval test_table_def upt_rec)

lemma buildEmit_empty_code:
  "buildEmit [([], v)] pl s em fb = None"
proof (rule ccontr)
  assume "buildEmit [([], v)] pl s em fb \<noteq> None"
  then obtain y where y: "buildEmit [([], v)] pl s em fb = Some y" by auto
  have "table = [([], v)] \<longrightarrow> False"
    if "buildEmit table pl s em fb = Some y" for table
    using that
  proof (rule buildEmit.raw_induct[where P = "\<lambda>table pl s em fb y. table = [([], v)] \<longrightarrow> False", rotated 1])
    fix f :: "(string \<times> 'a) list \<Rightarrow> int \<Rightarrow> string \<Rightarrow> 'a list \<Rightarrow> int option \<Rightarrow>
              ('a list \<times> int option \<times> string) option"
      and table pl s em fb y
    assume IH: "\<And>table pl s em fb y. f table pl s em fb = Some y \<Longrightarrow> table = [([], v)] \<longrightarrow> False"
      and body: "(case find (\<lambda>(code, v). startsWith s code) table of
                    None \<Rightarrow> Some (em, fb, s)
                  | Some (code, v) \<Rightarrow>
                      f table pl (drop (length code) s) (em @ [v])
                        (if em = [] then Some (int (length code) - pl) else fb)) = Some y"
    show "table = [([], v)] \<longrightarrow> False"
    proof
      assume t: "table = [([], v)]"
      have "\<exists>fb'. f table pl s (em @ [v]) fb' = Some y"
        using body by (auto simp: t startsWith_def)
      then obtain fb' where "f table pl s (em @ [v]) fb' = Some y" by blast
      from IH[OF this] t show False by simp
    qed
  qed
  then show False using y by blast
qed

lemma prepareDecoder_empty_code: "prepareDecoder [([], v)] = None"
proof -
  have np: "numberPrefixes [([], v)] = ([([], 0)], 1)"
    by (simp add: numberPrefixes_def)
  have "buildState [([], v)] [([], 0)] 0 [] = None"
    by (simp add: buildState_def buildTransition_def buildEmit_empty_code upt_rec)
  then show ?thesis
    by (simp add: prepareDecoder_def np putState_def)
qed

lemma zero_table_ok:
  "prefix_free [(''0'', 1::nat)] \<and> distinct (map fst [(''0'', 1::nat)]) \<and>
   [] \<notin> fst ` set [(''0'', 1::nat)]"
  by (simp add: prefix_free_def startsWith_def)

lemma zero_table_naive:
  "naive_decode [(''0'', 1::nat)] (bufferBits [0x08, 0x00] 0 2) = [1, 1, 1, 1]"
  by (simp add: naive_eval upt_rec)

lemma zero_table_stuck:
  "\<not> is_code_prefix [(''0'', 1::nat)]
       (snd (naive_match [(''0'', 1::nat)] (bufferBits [0x08, 0x00] 0 (2 - 1))))"
  by (simp add: naive_eval upt_rec)

text \<open>
  Claim C2 (the state machine against naive matching), in the form that holds. Let the
  code map be prefix-free and without the empty code (its keys are distinct, as in any
  \<open>Map\<close>). Then \<open>prepareDecoder\<close> returns, and \<open>decodeBuffer\<close> on the bytes
  \<open>start\<close> to \<open>end - 1\<close> either returns exactly the symbols of naive iterated
  longest-prefix matching on the bits of those bytes, or throws
  ``Invalid input to Huffman decoder''; it throws exactly when there are at least two
  bytes and the bits that naive matching leaves over after all bytes but the last are not
  the beginning of any code.
\<close>

theorem C2_decodeBuffer_refines_naive_matching:
  assumes "prefix_free table" and "distinct (map fst table)" and "[] \<notin> fst ` set table"
  shows "\<exists>decoder. prepareDecoder table = Some decoder \<and>
           decodeBuffer buffer start end' decoder =
             (if start + 1 < end' \<and>
                 \<not> is_code_prefix table
                     (snd (naive_match table (bufferBits buffer start (end' - 1))))
              then Inl (Error ''Invalid input to Huffman decoder'')
              else Inr (naive_decode table (bufferBits buffer start end')))"
proof -
  obtain decoder where pd: "prepareDecoder table = Some decoder"
    and gd: "good_decoder table decoder"
    using prepareDecoder_good[OF assms] by blast
  show ?thesis
    using pd decodeBuffer_naive[OF assms gd, of buffer start end'] by blast
qed

theorem C2_witness:
  "prefix_free test_table \<and> distinct (map fst test_table) \<and> [] \<notin> fst ` set test_table \<and>
   (\<exists>decoder. prepareDecoder test_table = Some decoder \<and>
      decodeBuffer [0x00, 0x4F] 0 2 decoder = Inr [1, 1, 1, 1, 2, 3]) \<and>
   naive_decode test_table (bufferBits [0x00, 0x4F] 0 2) = [1, 1, 1, 1, 2, 3]"
proof -
  have ok: "prefix_free test_table" "distinct (map fst test_table)" "[] \<notin> fst ` set test_table"
    using test_table_ok by simp_all
  have live: "is_code_prefix test_table
                (snd (naive_match test_table (bufferBits [0x00, 0x4F] 0 (2 - 1))))"
    using test_prefix by simp
  obtain decoder where pd: "prepareDecoder test_table = Some decoder"
    and db: "decodeBuffer [0x00, 0x4F] 0 2 decoder =
      (if 0 + 1 < (2::nat) \<and>
          \<not> is_code_prefix test_table
              (snd (naive_match test_table (bufferBits [0x00, 0x4F] 0 (2 - 1))))
       then Inl (Error ''Invalid input to Huffman decoder'')
       else Inr (naive_decode test_table (bufferBits [0x00, 0x4F] 0 2)))"
    using C2_decodeBuffer_refines_naive_matching[OF ok, of "[0x00, 0x4F]" 0 2] by blast
  have "decodeBuffer [0x00, 0x4F] 0 2 decoder = Inr [1, 1, 1, 1, 2, 3]"
    unfolding db using live test_naive by simp
  then show ?thesis using ok pd test_naive by blast
qed

text \<open>
  The claim as stated fails in two ways. For the prefix-free code map \<open>{0 \<mapsto> 1}\<close>
  and the buffer 08 00, naive matching yields four symbols and stops at the bit 1, which
  no code starts with; \<open>decodeBuffer\<close> emits nothing: it reaches that bit in the first
  of two bytes and throws. And for the prefix-free code map that holds only the empty
  code, the loop \<open>buildEmit\<close> of \<open>prepareDecoder\<close> pushes symbols without
  consuming a bit until the array can grow no more, so there is no state machine at all
  (\<open>None\<close> in the model, where a list can always grow).
\<close>

theorem C2_invalid_input_counterexample:
  "prefix_free [(''0'', 1::nat)] \<and>
   naive_decode [(''0'', 1::nat)] (bufferBits [0x08, 0x00] 0 2) = [1, 1, 1, 1] \<and>
   map_option (decodeBuffer [0x08, 0x00] 0 2) (prepareDecoder [(''0'', 1::nat)]) =
     Some (Inl (Error ''Invalid input to Huffman decoder'')) \<and>
   prefix_free [([], 1::nat)] \<and>
   prepareDecoder [([], 1::nat)] = None"
proof -
  have ok: "prefix_free [(''0'', 1::nat)]" "distinct (map fst [(''0'', 1::nat)])"
    "[] \<notin> fst ` set [(''0'', 1::nat)]"
    using zero_table_ok by simp_all
  obtain decoder where pd: "prepareDecoder [(''0'', 1::nat)] = Some decoder"
    and gd: "good_decoder [(''0'', 1::nat)] decoder"
    using prepareDecoder_good[OF ok] by blast
  have "decodeBuffer [0x08, 0x00] 0 2 decoder = Inl (Error ''Invalid input to Huffman decoder'')"
    using decodeBuffer_naive[OF ok gd, of "[0x08, 0x00]" 0 2] zero_table_stuck by simp
  then have 1: "map_option (decodeBuffer [0x08, 0x00] 0 2) (prepareDecoder [(''0'', 1::nat)]) =
     Some (Inl (Error ''Invalid input to Huffman decoder''))"
    unfolding pd by simp
  have 2: "prefix_free [([], 1::nat)]" by (simp add: prefix_free_def)
  show ?thesis
    using ok(1) zero_table_naive 1 2 prepareDecoder_empty_code[of "1::nat"] by blast
qed

section \<open>Segments of a baseline scan start fresh\<close>






















section \<open>Proofs: the raster and the blocks outside the grid\<close>

lemma storeByte_within:
  "withinSize n r \<Longrightarrow> i < n \<Longrightarrow> withinSize n (storeByte r i v)"
  by (simp add: withinSize_def storeByte_def)

lemma fold_invariant:
  assumes "P s" and "\<And>x s. x \<in> set xs \<Longrightarrow> P s \<Longrightarrow> P (f x s)"
  shows "P (fold f xs s)"
  using assms by (induction xs arbitrary: s) simp_all

text \<open>
  A pixel inside the clipped MCU lies inside the image, and its three bytes inside the
  raster.
\<close>

lemma pixel_index:
  fixes x y :: nat
  assumes "y < yEnd - yStart" "x < xEnd - xStart" "xEnd \<le> w" "yEnd \<le> h"
  shows "(((y + yStart) * w) + x + xStart) * 3 + 2 < 3 * w * h"
proof -
  have x: "x + xStart < w" and y: "y + yStart + 1 \<le> h" using assms by simp_all
  have "(y + yStart) * w + (x + xStart) < (y + yStart) * w + w" using x by simp
  also have "\<dots> = (y + yStart + 1) * w" by simp
  also have "\<dots> \<le> h * w" using y by (rule mult_le_mono1)
  finally have "(y + yStart) * w + (x + xStart) + 1 \<le> h * w" by simp
  then have "3 * ((y + yStart) * w + (x + xStart) + 1) \<le> 3 * (h * w)" by simp
  then show ?thesis by (simp add: algebra_simps)
qed

lemma paintGrayscalePixels_within:
  assumes "withinSize (3 * w * h) r" "xEnd \<le> w" "yEnd \<le> h"
    and "paintGrayscalePixels w r samples xStart xEnd yStart yEnd = Inr r'"
  shows "withinSize (3 * w * h) r'"
proof -
  have r': "r' = fold (\<lambda>y raster.
                  fold (\<lambda>x raster.
                    (let rasterIndex = (((y + yStart) * w) + x + xStart) * 3;
                         v = map_option (\<lambda>s. s + 128) (sampleAt (samples ! 0) (y * 8 + x))
                     in storeByte (storeByte (storeByte raster (rasterIndex + 2) v)
                                     (rasterIndex + 1) v) rasterIndex v))
                    [0..<xEnd - xStart] raster)
                  [0..<yEnd - yStart] r"
    using assms(4) by (simp add: paintGrayscalePixels_def split: if_splits)
  show ?thesis
    unfolding r'
  proof (rule fold_invariant[where P = "withinSize (3 * w * h)", OF assms(1)],
         rule fold_invariant[where P = "withinSize (3 * w * h)"], assumption)
    fix y s x s'
    assume y: "y \<in> set [0..<yEnd - yStart]" and x: "x \<in> set [0..<xEnd - xStart]"
      and s: "withinSize (3 * w * h) s'"
    have "(((y + yStart) * w) + x + xStart) * 3 + 2 < 3 * w * h"
      using pixel_index[of y yEnd yStart x xEnd xStart w h] x y assms(2,3) by simp
    then show "withinSize (3 * w * h)
           (let rasterIndex = (((y + yStart) * w) + x + xStart) * 3;
                v = map_option (\<lambda>s. s + 128) (sampleAt (samples ! 0) (y * 8 + x))
            in storeByte (storeByte (storeByte s' (rasterIndex + 2) v) (rasterIndex + 1) v) rasterIndex v)"
      using s by (simp add: Let_def storeByte_within)
  qed
qed

lemma convertYCbCrtoRGB_within:
  "withinSize n r \<Longrightarrow> i + 2 < n \<Longrightarrow> withinSize n (convertYCbCrtoRGB r i y cb cr)"
  by (simp add: convertYCbCrtoRGB_def Let_def storeByte_within)

lemma paintYCbCrPixels_within:
  assumes "withinSize (3 * w * h) r" "xEnd \<le> w" "yEnd \<le> h"
    and "paintYCbCrPixels w r samples lineWidth xStart xEnd yStart yEnd = Inr r'"
  shows "withinSize (3 * w * h) r'"
proof -
  have r': "r' = fold (\<lambda>y raster.
                  fold (\<lambda>x raster.
                    (let rasterIndex = (((y + yStart) * w) + x + xStart) * 3
                     in convertYCbCrtoRGB raster rasterIndex
                          (sampleAt (samples ! 0) (y * lineWidth + x))
                          (sampleAt (samples ! 1) (y * lineWidth + x))
                          (sampleAt (samples ! 2) (y * lineWidth + x))))
                    [0..<xEnd - xStart] raster)
                  [0..<yEnd - yStart] r"
    using assms(4) by (simp add: paintYCbCrPixels_def split: if_splits)
  show ?thesis
    unfolding r'
  proof (rule fold_invariant[where P = "withinSize (3 * w * h)", OF assms(1)],
         rule fold_invariant[where P = "withinSize (3 * w * h)"], assumption)
    fix y s x s'
    assume y: "y \<in> set [0..<yEnd - yStart]" and x: "x \<in> set [0..<xEnd - xStart]"
      and s: "withinSize (3 * w * h) s'"
    have "(((y + yStart) * w) + x + xStart) * 3 + 2 < 3 * w * h"
      using pixel_index[of y yEnd yStart x xEnd xStart w h] x y assms(2,3) by simp
    then show "withinSize (3 * w * h)
           (let rasterIndex = (((y + yStart) * w) + x + xStart) * 3
            in convertYCbCrtoRGB s' rasterIndex
                          (sampleAt (samples ! 0) (y * lineWidth + x))
                          (sampleAt (samples ! 1) (y * lineWidth + x))
                          (sampleAt (samples ! 2) (y * lineWidth + x)))"
      using s by (simp add: Let_def convertYCbCrtoRGB_within)
  qed
qed

lemma clipped_within:
  assumes "clipped frm xStart yStart r painter = Inr r'" and "P r"
    and "\<And>xs xe ys ye. xe \<le> frm_width frm \<Longrightarrow> ye \<le> frm_height frm \<Longrightarrow>
           painter xs xe ys ye = Inr r' \<Longrightarrow> P r'"
  shows "P r'"
proof (cases "\<exists>xs ys. xStart = Fin xs \<and> yStart = Fin ys")
  case True
  then obtain xs ys where s: "xStart = Fin xs" "yStart = Fin ys" by blast
  have "painter xs (min (xs + frm_mcuPixelWidth frm) (frm_width frm))
                ys (min (ys + frm_mcuPixelHeight frm) (frm_height frm)) = Inr r'"
    using assms(1) by (simp add: clipped_def s)
  then show ?thesis by (rule assms(3)[rotated 2]) simp_all
next
  case False
  then have "r' = r" using assms(1) by (auto simp: clipped_def split: grid_index.splits)
  then show ?thesis using assms(2) by simp
qed

lemma paintPixels_within:
  assumes w: "withinSize (3 * frm_width frm * frm_height frm) r"
    and p: "paintPixels frm r samples components mcuNumber = Inr r'"
  shows "withinSize (3 * frm_width frm * frm_height frm) r'"
proof -
  let ?I = "withinSize (3 * frm_width frm * frm_height frm)"
  let ?perRow = "ceilDiv (frm_width frm) (frm_mcuPixelWidth frm)"
  let ?x = "idx_times (remBy mcuNumber ?perRow) (frm_mcuPixelWidth frm)"
  let ?y = "idx_times (floorDivBy mcuNumber ?perRow) (frm_mcuPixelHeight frm)"
  have ycc: "?I r'" if "clipped frm ?x ?y r (paintYCbCrPixels (frm_width frm) r s lw) = Inr r'"
    for s lw
    using that w
  proof (rule clipped_within)
    fix xs xe ys ye
    assume "xe \<le> frm_width frm" "ye \<le> frm_height frm"
      and "paintYCbCrPixels (frm_width frm) r s lw xs xe ys ye = Inr r'"
    then show "?I r'" using paintYCbCrPixels_within[OF w] by blast
  qed
  have gray: "?I r'" if "clipped frm ?x ?y r (paintGrayscalePixels (frm_width frm) r samples) = Inr r'"
    using that w
  proof (rule clipped_within)
    fix xs xe ys ye
    assume "xe \<le> frm_width frm" "ye \<le> frm_height frm"
      and "paintGrayscalePixels (frm_width frm) r samples xs xe ys ye = Inr r'"
    then show "?I r'" using paintGrayscalePixels_within[OF w] by blast
  qed
  show ?thesis
    using p ycc gray
    by (auto simp: paintPixels_def Let_def split: if_splits sum.splits)
qed

lemma assembleLoop_within:
  assumes "assembleLoop frm mcuNumber r = Some (Inr r')"
    and "withinSize (3 * frm_width frm * frm_height frm) r"
  shows "withinSize (3 * frm_width frm * frm_height frm) r'"
proof -
  let ?I = "\<lambda>frm. withinSize (3 * frm_width frm * frm_height frm)"
  have "?I frm r \<longrightarrow> (\<forall>r''. (Inr r' :: js_error + raster) = Inr r'' \<longrightarrow> ?I frm r'')"
    using assms(1)
  proof (rule assembleLoop.raw_induct[where
          P = "\<lambda>frm m r res. ?I frm r \<longrightarrow> (\<forall>r''. res = Inr r'' \<longrightarrow> ?I frm r'')", rotated 1])
    fix loop frm m r0 res
    assume IH: "\<And>frm m r res. loop frm m r = Some res \<Longrightarrow>
                 ?I frm r \<longrightarrow> (\<forall>r''. res = Inr r'' \<longrightarrow> ?I frm r'')"
      and step: "(if idx_gt (frm_totalMcus frm) m
      then (case mcuBlocks frm m of
              Inl e \<Rightarrow> Some (Inl e)
            | Inr mcu \<Rightarrow>
                (case paintPixels frm r0 mcu (frm_components frm) m of
                   Inl e \<Rightarrow> Some (Inl e)
                 | Inr raster' \<Rightarrow> loop frm (m + 1) raster'))
      else Some (Inr r0)) = Some res"
    show "?I frm r0 \<longrightarrow> (\<forall>r''. res = Inr r'' \<longrightarrow> ?I frm r'')"
    proof (intro impI allI)
      fix r''
      assume w: "?I frm r0" and res: "res = Inr r''"
      show "?I frm r''"
      proof (cases "idx_gt (frm_totalMcus frm) m")
        case False
        then show ?thesis using step w res by simp
      next
        case True
        then obtain mcu r1 where "mcuBlocks frm m = Inr mcu"
          and p: "paintPixels frm r0 mcu (frm_components frm) m = Inr r1"
          and l: "loop frm (m + 1) r1 = Some res"
          using step res by (auto split: sum.splits)
        have "?I frm r1" using paintPixels_within[OF w p] .
        then show ?thesis using IH[OF l] res by simp
      qed
    qed
  qed
  then show ?thesis using assms(2) by simp
qed

lemma list_update_replicate: "(replicate n x)[i := x] = replicate n x"
  by (cases "i < n") (simp_all add: list_update_same_conv list_update_beyond)

lemma replicate_numeral_step: "replicate (numeral k) x = x # replicate (pred_numeral k) x"
  by (simp add: numeral_eq_Suc)

text \<open>All coefficients zero: every term of the inverse DCT is skipped.\<close>

lemma idctTerm_zero:
  "u < 8 \<Longrightarrow> v < 8 \<Longrightarrow> idctTerm (replicate 64 (Some 0)) x y u v sample = sample"
  by (simp add: idctTerm_def sampleAt_def Let_def)

lemma inverseDCT_zero: "inverseDCT (replicate 64 (Some 0)) = replicate 64 (Some 0)"
proof -
  have inner: "fold (\<lambda>v sample. idctTerm (replicate 64 (Some 0)) x y u v sample) [0..<8] s = s"
    if "u < 8" for x y u s
    by (rule fold_invariant[where P = "\<lambda>t. t = s"]) (simp_all add: idctTerm_zero that)
  have outer: "fold (\<lambda>u sample. fold (\<lambda>v sample. idctTerm (replicate 64 (Some 0)) x y u v sample)
                                 [0..<8] sample) [0..<8] s = s" for x y s
    by (rule fold_invariant[where P = "\<lambda>t. t = s"]) (simp_all add: inner)
  have row: "fold (\<lambda>y samples.
         (let sample = fold (\<lambda>u sample. fold (\<lambda>v sample.
                                idctTerm (replicate 64 (Some 0)) x y u v sample) [0..<8] sample)
                         [0..<8] (Some 0)
          in samples[y * 8 + x := map_option (\<lambda>s. s / 4) sample]))
         [0..<8] (replicate 64 (Some 0)) = replicate 64 (Some 0)" for x
    by (rule fold_invariant[where P = "\<lambda>t. t = replicate 64 (Some 0)"])
       (simp_all add: outer Let_def list_update_replicate)
  show ?thesis
    unfolding inverseDCT_def
  proof (rule fold_invariant[where P = "\<lambda>t. t = replicate 64 (Some 0)"])
    show "replicate 64 (Some (0::real)) = replicate 64 (Some 0)" by simp
  next
    fix x and s :: "number list"
    assume "s = replicate 64 (Some 0)"
    then show "fold (\<lambda>y samples.
         (let sample = fold (\<lambda>u sample. fold (\<lambda>v sample.
                                idctTerm (replicate 64 (Some 0)) x y u v sample) [0..<8] sample)
                         [0..<8] (Some 0)
          in samples[y * 8 + x := map_option (\<lambda>s. s / 4) sample]))
         [0..<8] s = replicate 64 (Some 0)"
      using row[of x] by simp
  qed
qed

lemmas raster_eval =
  assembleRaster_def assembleLoop.simps mcuBlocks_def mcuBlock_def paintPixels_def clipped_def
  paintGrayscalePixels_def storeByte_def toUint8_def sampleAt_def alloc_def dummyBlock_def
  rowAt_def slotAt_def ceilDiv_def remBy_def floorDivBy_def idx_gt_def idx_times_def
  idx_plus_def floorDiv_def remainder_def inverseDCT_zero example_frame_def
  handleFrameHeader_def idx_mult_def Let_def

lemma example_blocks:
  "mcuBlocks example_frame 0 = Inr [replicate 64 (Some 0)]"
  "mcuBlocks example_frame 1 = Inr [replicate 64 (Some 0)]"
  by (simp_all add: raster_eval)

lemma example_raster_raw:
  "assembleRaster example_frame =
     Some (Inr \<lparr>raster_bytes = (replicate 54 0)
    [Suc (Suc 0) := 128, Suc 0 := 128, 0 := 128, 5 := 128, 4 := 128,
     3 := 128, 8 := 128, 7 := 128, 6 := 128, 11 := 128, 10 := 128, 9 := 128,
     14 := 128, 13 := 128, 12 := 128, 17 := 128, 16 := 128, 15 := 128,
     20 := 128, 19 := 128, 18 := 128, 23 := 128, 22 := 128, 21 := 128,
     29 := 128, 28 := 128, 27 := 128, 32 := 128, 31 := 128, 30 := 128,
     35 := 128, 34 := 128, 33 := 128, 38 := 128, 37 := 128, 36 := 128,
     41 := 128, 40 := 128, 39 := 128, 44 := 128, 43 := 128, 42 := 128,
     47 := 128, 46 := 128, 45 := 128, 50 := 128, 49 := 128, 48 := 128,
     26 := 128, 25 := 128, 24 := 128, 53 := 128, 52 := 128, 51 := 128],
                raster_writes =
                  [2, 1, 0, 5, 4, 3, 8, 7, 6, 11, 10, 9, 14, 13, 12, 17, 16, 15, 20, 19, 18,
                   23, 22, 21, 29, 28, 27, 32, 31, 30, 35, 34, 33, 38, 37, 36, 41, 40, 39,
                   44, 43, 42, 47, 46, 45, 50, 49, 48, 26, 25, 24, 53, 52, 51]\<rparr>)"
  by (simp add: raster_eval upt_rec)

lemma example_bytes: "(replicate 54 (0::byte))
    [Suc (Suc 0) := 128, Suc 0 := 128, 0 := 128, 5 := 128, 4 := 128,
     3 := 128, 8 := 128, 7 := 128, 6 := 128, 11 := 128, 10 := 128, 9 := 128,
     14 := 128, 13 := 128, 12 := 128, 17 := 128, 16 := 128, 15 := 128,
     20 := 128, 19 := 128, 18 := 128, 23 := 128, 22 := 128, 21 := 128,
     29 := 128, 28 := 128, 27 := 128, 32 := 128, 31 := 128, 30 := 128,
     35 := 128, 34 := 128, 33 := 128, 38 := 128, 37 := 128, 36 := 128,
     41 := 128, 40 := 128, 39 := 128, 44 := 128, 43 := 128, 42 := 128,
     47 := 128, 46 := 128, 45 := 128, 50 := 128, 49 := 128, 48 := 128,
     26 := 128, 25 := 128, 24 := 128, 53 := 128, 52 := 128, 51 := 128] = replicate 54 128"
  by (simp add: replicate_numeral_step)


lemma alloc_within: "withinSize n (alloc n)"
  by (simp add: withinSize_def alloc_def)


lemma example_raster:
  "assembleRaster example_frame =
     Some (Inr \<lparr>raster_bytes = replicate 54 128,
                raster_writes =
                  [2, 1, 0, 5, 4, 3, 8, 7, 6, 11, 10, 9, 14, 13, 12, 17, 16, 15, 20, 19, 18,
                   23, 22, 21, 29, 28, 27, 32, 31, 30, 35, 34, 33, 38, 37, 36, 41, 40, 39,
                   44, 43, 42, 47, 46, 45, 50, 49, 48, 26, 25, 24, 53, 52, 51]\<rparr>)"
  by (simp add: example_raster_raw example_bytes)

lemma example_frame_fields:
  "frm_mcuPixelWidth example_frame = 8" "frm_mcuPixelHeight example_frame = 8"
  "frm_mcusPerRow example_frame = Fin 2" "frm_totalMcus example_frame = Fin 2"
  by (simp_all add: example_frame_def handleFrameHeader_def ceilDiv_def idx_mult_def Let_def)

text \<open>
  Claim C8. Whatever the frame and the coefficients are: when the assembly of the raster
  in \<open>fromBytes\<close> returns, the raster has \<open>width * height * 3\<close> bytes, and every store
  into it by \<open>paintGrayscalePixels\<close> or \<open>convertYCbCrtoRGB\<close>, in any MCU, the padding
  MCUs at the right and bottom edges included, was given an index below
  \<open>3 * width * height\<close>. And in \<open>readHuffmanCodedSegment\<close>, when the block reader
  returns a block for grid coordinates with \<open>row >= blocksPerCol\<close> or
  \<open>col >= blocksPerRow\<close>, the decoder object, and so the coefficient grid, stays as it
  is, and the DC predictor of the component becomes the first coefficient of that block.
\<close>

theorem C8_raster_in_bounds_and_dummy_blocks_discarded:
  "(\<forall>raster. assembleRaster frm = Some (Inr raster) \<longrightarrow>
      length (raster_bytes raster) = frm_width frm * frm_height frm * 3 \<and>
      (\<forall>i \<in> set (raster_writes raster). i < 3 * frm_width frm * frm_height frm)) \<and>
   (\<forall>bytePos' bitPos' block.
      readBlock ecs (h_bytePos loc) (h_bitPos loc) (slotAt (h_prevDcCoeffs loc) (int componentIndex))
        (comp_dcTable c) (comp_acTable c) = Some (Inr (bytePos', bitPos', block)) \<and>
      (idx_ge row (comp_blocksPerCol c) \<or> idx_ge col (comp_blocksPerRow c)) \<longrightarrow>
      (\<exists>loc'. huffmanBlock readBlock ecs c componentIndex row col (jpg, loc) = Some (Inr (jpg, loc')) \<and>
              loc' = \<lparr>h_bytePos = bytePos', h_bitPos = bitPos',
                       h_prevDcCoeffs = putSlot (h_prevDcCoeffs loc) componentIndex (firstOf block)\<rparr> \<and>
              slotAt (h_prevDcCoeffs loc') (int componentIndex) = firstOf block))"
proof (intro conjI allI impI)
  fix raster
  assume "assembleRaster frm = Some (Inr raster)"
  then have "withinSize (3 * frm_width frm * frm_height frm) raster"
    unfolding assembleRaster_def by (rule assembleLoop_within) (rule alloc_within)
  then show "length (raster_bytes raster) = frm_width frm * frm_height frm * 3"
    and "\<forall>i \<in> set (raster_writes raster). i < 3 * frm_width frm * frm_height frm"
    by (simp_all add: withinSize_def list_all_iff mult.commute mult.left_commute)
next
  fix bytePos' bitPos' block
  assume a: "readBlock ecs (h_bytePos loc) (h_bitPos loc) (slotAt (h_prevDcCoeffs loc) (int componentIndex))
            (comp_dcTable c) (comp_acTable c) = Some (Inr (bytePos', bitPos', block)) \<and>
          (idx_ge row (comp_blocksPerCol c) \<or> idx_ge col (comp_blocksPerRow c))"
  let ?loc' = "\<lparr>h_bytePos = bytePos', h_bitPos = bitPos',
                h_prevDcCoeffs = putSlot (h_prevDcCoeffs loc) componentIndex (firstOf block)\<rparr>"
  have 1: "huffmanBlock readBlock ecs c componentIndex row col (jpg, loc) = Some (Inr (jpg, ?loc'))"
    using a by (auto simp: huffmanBlock_def Let_def)
  have 2: "slotAt (h_prevDcCoeffs ?loc') (int componentIndex) = firstOf block"
    by (simp add: slotAt_def putSlot_def nth_append)
  show "\<exists>loc'. huffmanBlock readBlock ecs c componentIndex row col (jpg, loc) = Some (Inr (jpg, loc')) \<and>
              loc' = \<lparr>h_bytePos = bytePos', h_bitPos = bitPos',
                       h_prevDcCoeffs = putSlot (h_prevDcCoeffs loc) componentIndex (firstOf block)\<rparr> \<and>
              slotAt (h_prevDcCoeffs loc') (int componentIndex) = firstOf block"
    using 1 2 by blast
qed

theorem C8_witness:
  "assembleRaster example_frame =
     Some (Inr \<lparr>raster_bytes = replicate 54 128,
                raster_writes =
                  [2, 1, 0, 5, 4, 3, 8, 7, 6, 11, 10, 9, 14, 13, 12, 17, 16, 15, 20, 19, 18,
                   23, 22, 21, 29, 28, 27, 32, 31, 30, 35, 34, 33, 38, 37, 36, 41, 40, 39,
                   44, 43, 42, 47, 46, 45, 50, 49, 48, 26, 25, 24, 53, 52, 51]\<rparr>) \<and>
   frm_width example_frame * frm_height example_frame * 3 = 54 \<and>
   example_reader [] 0 0 (Some (Num 0)) 0 0 = Some (Inr (1, 0, example_block)) \<and>
   idx_ge (Fin 1) (comp_blocksPerRow example_component) \<and>
   huffmanBlock example_reader [] example_component 0 (Fin 0) (Fin 1)
     (example_huffman_jpeg, example_locals) =
     Some (Inr (example_huffman_jpeg,
                \<lparr>h_bytePos = 1, h_bitPos = 0, h_prevDcCoeffs = [Some (Num 5)]\<rparr>))"
proof -
  note inst = C8_raster_in_bounds_and_dummy_blocks_discarded[of example_frame example_reader "[]"
      example_locals 0 example_component "Fin 0" "Fin 1" example_huffman_jpeg]
  have size: "frm_width example_frame * frm_height example_frame * 3 = 54"
    by (simp add: example_frame_def handleFrameHeader_def Let_def)
  have reader: "example_reader [] 0 0 (Some (Num 0)) 0 0 = Some (Inr (1, 0, example_block))"
    by (simp add: example_reader_def)
  have outside: "idx_ge (Fin 1) (comp_blocksPerRow example_component)"
    by (simp add: idx_ge_def example_component_def)
  have "huffmanBlock example_reader [] example_component 0 (Fin 0) (Fin 1)
     (example_huffman_jpeg, example_locals) =
     Some (Inr (example_huffman_jpeg,
                \<lparr>h_bytePos = 1, h_bitPos = 0, h_prevDcCoeffs = [Some (Num 5)]\<rparr>))"
    using inst reader outside
    by (simp add: example_locals_def example_component_def example_reader_def slotAt_def
        putSlot_def firstOf_def example_block_def)
  then show ?thesis using example_raster size reader outside by blast
qed

end
